theory Spec2Isabelle
  imports Complex_Main "HOL-Library.Char_ord" "HOL-Library.List_Lexorder"
begin

unbundle bit_operations_syntax

section \<open>Values of the Python program\<close>

text \<open>
  Exceptions of the source are values of \<open>error\<close>; a function that can raise returns
  \<open>error + 'a\<close> with \<open>Inl\<close> for the exception.
\<close>

datatype error =
    ValueError
  | KeyError
  | IndexError
  | ZeroDivisionError
  | RuntimeError
  | QiskitError
  | CircuitError
  | OverflowError

text \<open>
  A float64 of numpy is \<open>Fin r\<close> for a finite value, or one of the three special values
  of IEEE arithmetic. In the array operations of the estimator finite values are
  idealised: they are real numbers, so rounding, overflow to infinity and the sign of
  zero are not modelled there. The special values follow numpy, which warns and goes on
  where Python's own floats raise. The shots of line 279 are computed on Python floats
  with rounding, see \<open>f64_round\<close> below.
\<close>

datatype npfloat = Fin real | PInf | NInf | NaN

fun fneg :: "npfloat \<Rightarrow> npfloat" where
  "fneg (Fin a) = Fin (- a)"
| "fneg PInf = NInf"
| "fneg NInf = PInf"
| "fneg NaN = NaN"

fun fadd :: "npfloat \<Rightarrow> npfloat \<Rightarrow> npfloat" where
  "fadd NaN _ = NaN"
| "fadd _ NaN = NaN"
| "fadd (Fin a) (Fin b) = Fin (a + b)"
| "fadd PInf NInf = NaN"
| "fadd NInf PInf = NaN"
| "fadd PInf _ = PInf"
| "fadd _ PInf = PInf"
| "fadd NInf _ = NInf"
| "fadd _ NInf = NInf"

definition fsub :: "npfloat \<Rightarrow> npfloat \<Rightarrow> npfloat" where
  "fsub a b = fadd a (fneg b)"

fun fsign :: "npfloat \<Rightarrow> int" where
  "fsign (Fin a) = (if a < 0 then - 1 else if a = 0 then 0 else 1)"
| "fsign PInf = 1"
| "fsign NInf = - 1"
| "fsign NaN = 0"

definition inf_of_sign :: "int \<Rightarrow> npfloat" where
  "inf_of_sign s = (if s = 0 then NaN else if s < 0 then NInf else PInf)"

fun fmul :: "npfloat \<Rightarrow> npfloat \<Rightarrow> npfloat" where
  "fmul NaN _ = NaN"
| "fmul _ NaN = NaN"
| "fmul (Fin a) (Fin b) = Fin (a * b)"
| "fmul a b = inf_of_sign (fsign a * fsign b)"

text \<open>
  Division as numpy does it: a finite value over zero is an infinity of the sign of the
  numerator, and zero over zero is NaN; there is no exception.
\<close>

fun fdiv :: "npfloat \<Rightarrow> npfloat \<Rightarrow> npfloat" where
  "fdiv NaN _ = NaN"
| "fdiv _ NaN = NaN"
| "fdiv (Fin a) (Fin b) = (if b = 0 then inf_of_sign (fsign (Fin a)) else Fin (a / b))"
| "fdiv (Fin a) _ = Fin 0"
| "fdiv PInf (Fin b) = (if b < 0 then NInf else PInf)"
| "fdiv NInf (Fin b) = (if b < 0 then PInf else NInf)"
| "fdiv _ _ = NaN"

text \<open>\<open>v ** 0.5\<close> on a float64: NaN below zero, the square root otherwise.\<close>

fun fpow_half :: "npfloat \<Rightarrow> npfloat" where
  "fpow_half (Fin a) = (if a < 0 then NaN else Fin (sqrt a))"
| "fpow_half PInf = PInf"
| "fpow_half NInf = PInf"
| "fpow_half NaN = NaN"

text \<open>\<open>np.sqrt\<close> of a Python integer.\<close>

definition np_sqrt_int :: "int \<Rightarrow> npfloat" where
  "np_sqrt_int n = (if n < 0 then NaN else Fin (sqrt (of_int n)))"

text \<open>
  A complex128 is a pair of float64. Only what the estimator uses is modelled: the
  conversion of a float, of a (finite) Python complex, the sum, the product, and the
  cast back to float64 that an assignment into a float array performs (numpy warns and
  keeps the real part).
\<close>

type_synonym npcomplex = "npfloat \<times> npfloat"

definition complex_of_float :: "npfloat \<Rightarrow> npcomplex" where
  "complex_of_float a = (a, Fin 0)"

definition npcomplex_of :: "complex \<Rightarrow> npcomplex" where
  "npcomplex_of c = (Fin (Re c), Fin (Im c))"

definition cadd :: "npcomplex \<Rightarrow> npcomplex \<Rightarrow> npcomplex" where
  "cadd a b = (fadd (fst a) (fst b), fadd (snd a) (snd b))"

definition cmul :: "npcomplex \<Rightarrow> npcomplex \<Rightarrow> npcomplex" where
  "cmul a b =
     (fsub (fmul (fst a) (fst b)) (fmul (snd a) (snd b)),
      fadd (fmul (fst a) (snd b)) (fmul (snd a) (fst b)))"

definition astype_float :: "npcomplex \<Rightarrow> npfloat" where
  "astype_float c = fst c"

section \<open>Parsing the keys of a count histogram\<close>

text \<open>
  \<open>int(s, 2)\<close> of Python on a string of characters below 256: white space is stripped
  at both ends, a sign and the prefix \<open>0b\<close> (with one underscore after it) are optional,
  and the digits may be separated by single underscores. Anything else raises ValueError.
\<close>

definition is_space :: "char \<Rightarrow> bool" where
  "is_space c = (c \<in> {CHR 0x20, CHR 0x09, CHR 0x0A, CHR 0x0B, CHR 0x0C, CHR 0x0D,
                       CHR 0x85, CHR 0xA0})"

definition strip :: "string \<Rightarrow> string" where
  "strip s = rev (dropWhile is_space (rev (dropWhile is_space s)))"

definition is_bit :: "char \<Rightarrow> bool" where
  "is_bit c = (c = CHR ''0'' \<or> c = CHR ''1'')"

definition bit_val :: "char \<Rightarrow> nat" where
  "bit_val c = (if c = CHR ''1'' then 1 else 0)"

text \<open>The digits after the first one; \<open>acc\<close> is the value read so far.\<close>

fun scan_digits :: "nat \<Rightarrow> string \<Rightarrow> nat option" where
  "scan_digits acc [] = Some acc"
| "scan_digits acc [c] = (if is_bit c then Some (2 * acc + bit_val c) else None)"
| "scan_digits acc (c # d # ds) =
     (if c = CHR ''_''
      then (if is_bit d then scan_digits (2 * acc + bit_val d) ds else None)
      else if is_bit c then scan_digits (2 * acc + bit_val c) (d # ds)
      else None)"

definition skip_sign :: "string \<Rightarrow> bool \<times> string" where
  "skip_sign s =
     (case s of
        [] \<Rightarrow> (False, s)
      | c # cs \<Rightarrow>
          if c = CHR ''-'' then (True, cs)
          else if c = CHR ''+'' then (False, cs)
          else (False, s))"

definition skip_prefix :: "string \<Rightarrow> string" where
  "skip_prefix s =
     (case s of
        a # b # cs \<Rightarrow>
          if a = CHR ''0'' \<and> (b = CHR ''b'' \<or> b = CHR ''B'')
          then (case cs of [] \<Rightarrow> cs | u # us \<Rightarrow> if u = CHR ''_'' then us else cs)
          else s
      | _ \<Rightarrow> s)"

definition py_int2 :: "string \<Rightarrow> error + int" where
  "py_int2 s =
     (let (neg, t) = skip_sign (strip s) in
      case skip_prefix t of
        [] \<Rightarrow> Inl ValueError
      | c # cs \<Rightarrow>
          if is_bit c
          then (case scan_digits (bit_val c) cs of
                  None \<Rightarrow> Inl ValueError
                | Some n \<Rightarrow> Inr (if neg then - int n else int n))
          else Inl ValueError)"

text \<open>\<open>s.split(" ", 1)\<close>: at most one split, at the first space.\<close>

definition py_split_space1 :: "string \<Rightarrow> string list" where
  "py_split_space1 s =
     (case dropWhile (\<lambda>c. c \<noteq> CHR 0x20) s of
        [] \<Rightarrow> [s]
      | _ # rest \<Rightarrow> [takeWhile (\<lambda>c. c \<noteq> CHR 0x20) s, rest])"

text \<open>Lines 100 and 101 of the estimator: the key up to its first space, read in base 2.\<close>

definition split_outcome :: "string \<Rightarrow> string" where
  "split_outcome bin_outcome =
     (if CHR 0x20 \<in> set bin_outcome then hd (py_split_space1 bin_outcome) else bin_outcome)"

definition outcome_of :: "string \<Rightarrow> error + int" where
  "outcome_of bin_outcome = py_int2 (split_outcome bin_outcome)"

section \<open>Parity and packed operator masks\<close>

text \<open>\<open>bin(i)\<close>: the binary digits of the absolute value, after \<open>0b\<close> or \<open>-0b\<close>.\<close>

function bin_digits :: "nat \<Rightarrow> string" where
  "bin_digits n =
     (if n < 2 then [if n = 0 then CHR ''0'' else CHR ''1'']
      else bin_digits (n div 2) @ [if even n then CHR ''0'' else CHR ''1''])"
  by pat_completeness auto
termination
  by (relation "measure id") auto

declare bin_digits.simps [simp del]

definition py_bin :: "int \<Rightarrow> string" where
  "py_bin i = (if i < 0 then ''-0b'' else ''0b'') @ bin_digits (nat \<bar>i\<bar>)"

definition parity :: "int \<Rightarrow> int" where
  "parity integer = int (count_list (py_bin integer) CHR ''1'') mod 2"

text \<open>The number of one bits, which the specification calls popcount.\<close>

function popcount :: "nat \<Rightarrow> nat" where
  "popcount n = (if n = 0 then 0 else n mod 2 + popcount (n div 2))"
  by pat_completeness auto
termination
  by (relation "measure id") auto

declare popcount.simps [simp del]

text \<open>
  A Pauli operator is its two bit vectors and its phase; a PauliList is a list of
  operators on the same number of qubits.
\<close>

record pauli =
  z :: "bool list"
  x :: "bool list"
  phase :: nat

text \<open>
  \<open>np.packbits(..., bitorder="little")\<close> on one row: bytes of eight bits, the first
  bit of a byte the least significant, the last byte padded with zeros.
\<close>

fun byte_of_bits :: "bool list \<Rightarrow> nat" where
  "byte_of_bits [] = 0"
| "byte_of_bits (b # bs) = (if b then 1 else 0) + 2 * byte_of_bits bs"

function packbits :: "bool list \<Rightarrow> nat list" where
  "packbits bs = (if bs = [] then [] else byte_of_bits (take 8 bs) # packbits (drop 8 bs))"
  by pat_completeness auto
termination
  by (relation "measure length") auto

declare packbits.simps [simp del]

definition paulis2inds :: "pauli list \<Rightarrow> int list" where
  "paulis2inds paulis =
     map (\<lambda>p.
        let nonid = map2 (\<or>) (z p) (x p);
            packed_vals = packbits nonid;
            power_uint8 = map (\<lambda>j. (2::int) ^ (8 * j)) [0..<length packed_vals]
        in (\<Sum>(v, w)\<leftarrow>zip packed_vals power_uint8. int v * w)) paulis"

section \<open>The expectation estimator\<close>

type_synonym counts = "(string \<times> int) list"

text \<open>The loop over \<open>k\<close> of lines 103 to 105, one histogram entry at a time.\<close>

definition add_outcome ::
  "nat \<Rightarrow> int list \<Rightarrow> int \<Rightarrow> int \<Rightarrow> npfloat list \<Rightarrow> npfloat list" where
  "add_outcome sz diag_inds outcome freq expvals =
     fold (\<lambda>k ev.
        let coeff = (- 1) ^ nat (parity ((diag_inds ! k) AND outcome))
        in ev[k := fadd (ev ! k) (Fin (of_int (freq * coeff)))])
       [0..<sz] expvals"

text \<open>The loop over the items of the histogram; the state is \<open>(expvals, denom)\<close>.\<close>

fun count_loop ::
  "nat \<Rightarrow> int list \<Rightarrow> counts \<Rightarrow> npfloat list \<times> int \<Rightarrow> error + (npfloat list \<times> int)" where
  "count_loop sz diag_inds [] st = Inr st"
| "count_loop sz diag_inds ((bin_outcome, freq) # rest) (expvals, denom) =
     (case outcome_of bin_outcome of
        Inl e \<Rightarrow> Inl e
      | Inr outcome \<Rightarrow>
          count_loop sz diag_inds rest
            (add_outcome sz diag_inds outcome freq expvals, denom + freq))"

definition pauli_expval_with_variance ::
  "counts \<Rightarrow> pauli list \<Rightarrow> error + (npfloat list \<times> npfloat list)" where
  "pauli_expval_with_variance cnts paulis =
     (let sz = length paulis;
          diag_inds = paulis2inds paulis
      in case count_loop sz diag_inds cnts (replicate sz (Fin 0), 0) of
           Inl e \<Rightarrow> Inl e
         | Inr (expvals, denom) \<Rightarrow>
             (let expvals' = map (\<lambda>e. fdiv e (Fin (of_int denom))) expvals;
                  variances = map (\<lambda>e. fsub (Fin 1) (fmul e e)) expvals'
              in Inr (expvals', variances)))"

text \<open>What one histogram entry adds to the sum of operator \<open>k\<close> (line 104 and 105).\<close>

definition term_of :: "int \<Rightarrow> int \<Rightarrow> int \<Rightarrow> int" where
  "term_of m b f = f * (- 1) ^ nat (parity (m AND b))"

section \<open>Results and loops that can raise\<close>

definition ebind :: "error + 'a \<Rightarrow> ('a \<Rightarrow> error + 'b) \<Rightarrow> error + 'b" where
  "ebind m f = (case m of Inl e \<Rightarrow> Inl e | Inr v \<Rightarrow> f v)"

text \<open>A loop that appends one result per element and stops at the first exception.\<close>

fun emap :: "('a \<Rightarrow> error + 'b) \<Rightarrow> 'a list \<Rightarrow> error + 'b list" where
  "emap f [] = Inr []"
| "emap f (a # rest) =
     (case f a of
        Inl e \<Rightarrow> Inl e
      | Inr b \<Rightarrow> (case emap f rest of Inl e \<Rightarrow> Inl e | Inr bs \<Rightarrow> Inr (b # bs)))"

section \<open>Circuits and measurement circuits\<close>

text \<open>
  Of a QuantumCircuit the estimator reads and writes the number of qubits, the classical
  registers (name and size, in order), the instructions and the metadata. The
  instructions it adds itself are \<open>sdg\<close>, \<open>h\<close> and \<open>measure\<close>; whatever else the
  caller's program holds is an opaque \<open>Gate\<close>. The metadata the estimator attaches is
  the dictionary of lines 467 to 471; \<open>None\<close> is a circuit without it.
\<close>

datatype instr = Sdg nat | H nat | Measure nat nat | Gate string "nat list" "nat list"

record meta =
  orig_paulis :: "pauli list"
  meas_paulis :: "pauli list"
  param_index :: "nat list"

record circuit =
  num_qubits :: nat
  cregs :: "(string \<times> nat) list"
  ops :: "instr list"
  metadata :: "meta option"

definition num_clbits :: "circuit \<Rightarrow> nat" where
  "num_clbits c = sum_list (map snd (cregs c))"

text \<open>
  The gate methods of QuantumCircuit raise CircuitError for a qubit or a classical bit
  that the circuit does not have.
\<close>

definition sdg :: "nat \<Rightarrow> circuit \<Rightarrow> error + circuit" where
  "sdg i c = (if i < num_qubits c then Inr (c\<lparr>ops := ops c @ [Sdg i]\<rparr>) else Inl CircuitError)"

definition h :: "nat \<Rightarrow> circuit \<Rightarrow> error + circuit" where
  "h i c = (if i < num_qubits c then Inr (c\<lparr>ops := ops c @ [H i]\<rparr>) else Inl CircuitError)"

definition measure :: "nat \<Rightarrow> nat \<Rightarrow> circuit \<Rightarrow> error + circuit" where
  "measure i clbit c =
     (if i < num_qubits c \<and> clbit < num_clbits c
      then Inr (c\<lparr>ops := ops c @ [Measure i clbit]\<rparr>) else Inl CircuitError)"

text \<open>
  Lines 518 to 520. The operator's two bit vectors have the same length, its number of
  qubits. \<open>np.any\<close> of the index array is false when it is empty and also when its only
  entry is the index 0; in both cases the list \<open>[0]\<close> is taken.
\<close>

definition qubit_indices_of :: "pauli \<Rightarrow> nat list" where
  "qubit_indices_of p =
     (let nonid = map2 (\<or>) (z p) (x p);
          qubit_indices = filter (\<lambda>i. nonid ! i) [0..<length nonid]
      in if \<not> list_ex (\<lambda>i. i \<noteq> 0) qubit_indices then [0] else qubit_indices)"

text \<open>The loop of lines 524 to 529 over \<open>enumerate(qubit_indices)\<close>.\<close>

fun measure_loop :: "pauli \<Rightarrow> (nat \<times> nat) list \<Rightarrow> circuit \<Rightarrow> error + circuit" where
  "measure_loop p [] mc = Inr mc"
| "measure_loop p ((clbit, i) # rest) mc =
     (if \<not> i < length (x p) then Inl IndexError
      else ebind
        (if x p ! i
         then ebind (if z p ! i then sdg i mc else Inr mc) (h i)
         else Inr mc)
        (\<lambda>mc'. ebind (measure i clbit mc') (measure_loop p rest)))"

text \<open>
  \<open>str(pauli)\<close> is Qiskit's and not part of this file: it is the parameter \<open>pauli_str\<close>.
\<close>

definition measurement_circuit ::
  "(pauli \<Rightarrow> string) \<Rightarrow> nat \<Rightarrow> pauli \<Rightarrow> error + (circuit \<times> nat list)" where
  "measurement_circuit pauli_str nq p =
     (let qubit_indices = qubit_indices_of p;
          meas_circuit = \<lparr>num_qubits = nq,
                          cregs = [(''__c_'' @ pauli_str p, length qubit_indices)],
                          ops = [], metadata = None\<rparr>
      in ebind (measure_loop p (zip [0..<length qubit_indices] qubit_indices) meas_circuit)
           (\<lambda>mc. Inr (mc, qubit_indices)))"

text \<open>
  Lines 493 to 510: one measurement circuit is put on a copy of the caller's circuit.
  \<open>check_cregs\<close> is the loop over the registers of the copy. \<open>compose\<close> appends the
  instructions of the measurement circuit, its classical bits being those of the register
  just added, and raises CircuitError when the measurement circuit has more qubits.
\<close>

fun check_cregs :: "string \<times> nat \<Rightarrow> (string \<times> nat) list \<Rightarrow> error + unit" where
  "check_cregs clbits [] = Inr ()"
| "check_cregs clbits (creg # rest) =
     (if fst clbits = fst creg then Inl QiskitError else check_cregs clbits rest)"

definition add_register :: "string \<times> nat \<Rightarrow> circuit \<Rightarrow> circuit" where
  "add_register r c = c\<lparr>cregs := cregs c @ [r]\<rparr>"

fun shift_clbits :: "nat \<Rightarrow> instr \<Rightarrow> instr" where
  "shift_clbits off (Measure q c) = Measure q (off + c)"
| "shift_clbits off (Gate g qs cs) = Gate g qs (map (\<lambda>c. off + c) cs)"
| "shift_clbits off i = i"

definition compose :: "circuit \<Rightarrow> nat \<Rightarrow> circuit \<Rightarrow> error + circuit" where
  "compose other off c =
     (if num_qubits other \<le> num_qubits c
      then Inr (c\<lparr>ops := ops c @ map (shift_clbits off) (ops other)\<rparr>)
      else Inl CircuitError)"

definition combine_circuit :: "circuit \<Rightarrow> circuit \<Rightarrow> error + circuit" where
  "combine_circuit circ meas_circuit =
     (let circuit_copy = circ in
      case cregs meas_circuit of
        [] \<Rightarrow> Inl IndexError
      | clbits # _ \<Rightarrow>
          ebind (check_cregs clbits (cregs circuit_copy))
            (\<lambda>_. ebind (compose meas_circuit (num_clbits circuit_copy)
                           (add_register clbits circuit_copy))
               (\<lambda>c. Inr (c\<lparr>metadata := metadata meas_circuit\<rparr>))))"

text \<open>
  Lines 457 to 487. \<open>logical_or_reduce\<close> is \<open>np.logical_or.reduce\<close> over the rows of
  a group, \<open>select_columns\<close> is \<open>a[:, indices]\<close> on one row, which raises IndexError for
  a column the row does not have.
\<close>

definition logical_or_reduce :: "bool list list \<Rightarrow> bool list" where
  "logical_or_reduce rows =
     (case rows of [] \<Rightarrow> [] | r # rs \<Rightarrow> foldl (\<lambda>acc row. map2 (\<or>) acc row) r rs)"

definition select_columns :: "bool list \<Rightarrow> nat list \<Rightarrow> error + bool list" where
  "select_columns row indices =
     emap (\<lambda>i. if i < length row then Inr (row ! i) else Inl IndexError) indices"

definition from_symplectic :: "pauli list \<Rightarrow> nat list \<Rightarrow> error + pauli list" where
  "from_symplectic obs indices =
     emap (\<lambda>p. ebind (select_columns (z p) indices)
             (\<lambda>zs. ebind (select_columns (x p) indices)
                (\<lambda>xs. Inr \<lparr>z = zs, x = xs, phase = phase p\<rparr>))) obs"

definition measure_group ::
  "(pauli \<Rightarrow> string) \<Rightarrow> circuit \<Rightarrow> nat list \<Rightarrow> pauli \<Rightarrow> pauli list \<Rightarrow> error + circuit" where
  "measure_group pauli_str circ pidx basis obs =
     ebind (measurement_circuit pauli_str (num_qubits circ) basis)
       (\<lambda>(meas_circuit, indices).
          ebind (from_symplectic obs indices)
            (\<lambda>paulis. Inr (meas_circuit\<lparr>metadata :=
                 Some \<lparr>orig_paulis = obs, meas_paulis = paulis, param_index = pidx\<rparr>\<rparr>)))"

text \<open>
  The options of the estimator, and what the estimator takes from Qiskit: the string and
  the label of an operator, the PauliList of a list of labels, the grouping into
  qubit-wise commuting sets, and the pass manager.
\<close>

record options =
  default_precision :: real
  abelian_grouping :: bool
  seed_simulator :: "int option"

record qiskit =
  pauli_str :: "pauli \<Rightarrow> string"
  to_label :: "pauli \<Rightarrow> string"
  pauli_list :: "string list \<Rightarrow> error + pauli list"
  group_commuting :: "pauli list \<Rightarrow> pauli list list"
  passmanager_run :: "circuit list \<Rightarrow> circuit list"

text \<open>
  \<open>_create_measurement_circuits\<close> in its two parts: the measurement circuits of lines
  457 to 487, and their combination with the caller's circuit after the pass manager.
\<close>

definition build_measurement_circuits ::
  "qiskit \<Rightarrow> options \<Rightarrow> circuit \<Rightarrow> pauli list \<Rightarrow> nat list \<Rightarrow> error + circuit list" where
  "build_measurement_circuits q opts circ observable pidx =
     (if abelian_grouping opts
      then emap (\<lambda>obs.
              let basis = \<lparr>z = logical_or_reduce (map z obs),
                           x = logical_or_reduce (map x obs), phase = 0\<rparr>
              in measure_group (pauli_str q) circ pidx basis obs)
            (group_commuting q observable)
      else emap (\<lambda>basis. measure_group (pauli_str q) circ pidx basis [basis]) observable)"

definition create_measurement_circuits ::
  "qiskit \<Rightarrow> options \<Rightarrow> circuit \<Rightarrow> pauli list \<Rightarrow> nat list \<Rightarrow> error + circuit list" where
  "create_measurement_circuits q opts circ observable pidx =
     ebind (build_measurement_circuits q opts circ observable pidx)
       (\<lambda>meas_circuits. emap (combine_circuit circ) (passmanager_run q meas_circuits))"

section \<open>Arrays and broadcasting\<close>

text \<open>
  An ndarray is its shape and its elements in row-major order. \<open>ndindex\<close> lists the
  index tuples of a shape in that order, and \<open>ravel_index\<close> is the position of an index
  tuple in the flat data.
\<close>

record 'a ndarray =
  shape :: "nat list"
  data :: "'a list"

fun ndindex :: "nat list \<Rightarrow> nat list list" where
  "ndindex [] = [[]]"
| "ndindex (n # ns) = concat (map (\<lambda>i. map ((#) i) (ndindex ns)) [0..<n])"

fun ravel_index :: "nat list \<Rightarrow> nat list \<Rightarrow> nat" where
  "ravel_index (n # ns) (i # idx) = i * prod_list ns + ravel_index ns idx"
| "ravel_index _ _ = 0"

definition getitem :: "'a ndarray \<Rightarrow> nat list \<Rightarrow> 'a" where
  "getitem a idx = data a ! ravel_index (shape a) idx"

definition setitem :: "'a ndarray \<Rightarrow> nat list \<Rightarrow> 'a \<Rightarrow> 'a ndarray" where
  "setitem a idx v = a\<lparr>data := (data a)[ravel_index (shape a) idx := v]\<rparr>"

definition zeros_like :: "'a ndarray \<Rightarrow> npfloat ndarray" where
  "zeros_like a = \<lparr>shape = shape a, data = replicate (prod_list (shape a)) (Fin 0)\<rparr>"

text \<open>
  The broadcasting rule of numpy, on the shapes read from the last axis: equal lengths
  stay, a length 1 stretches, a missing axis is taken from the other shape, and anything
  else raises ValueError.
\<close>

fun broadcast_rev :: "nat list \<Rightarrow> nat list \<Rightarrow> error + nat list" where
  "broadcast_rev [] bs = Inr bs"
| "broadcast_rev (a # as) [] = Inr (a # as)"
| "broadcast_rev (a # as) (b # bs) =
     (if a = b \<or> b = 1 then ebind (broadcast_rev as bs) (\<lambda>r. Inr (a # r))
      else if a = 1 then ebind (broadcast_rev as bs) (\<lambda>r. Inr (b # r))
      else Inl ValueError)"

definition broadcast_shapes :: "nat list \<Rightarrow> nat list \<Rightarrow> error + nat list" where
  "broadcast_shapes s t = ebind (broadcast_rev (rev s) (rev t)) (\<lambda>r. Inr (rev r))"

text \<open>
  The element of an array of shape \<open>s\<close> that a broadcast view shows at \<open>idx\<close>: the
  last axes of \<open>idx\<close>, with 0 on the axes of length 1.
\<close>

definition broadcast_index :: "nat list \<Rightarrow> nat list \<Rightarrow> nat list" where
  "broadcast_index s idx =
     map2 (\<lambda>n i. if n = 1 then 0 else i) s (drop (length idx - length s) idx)"

definition broadcast_to :: "'a ndarray \<Rightarrow> nat list \<Rightarrow> 'a ndarray" where
  "broadcast_to a s =
     \<lparr>shape = s, data = map (\<lambda>idx. getitem a (broadcast_index (shape a) idx)) (ndindex s)\<rparr>"

definition broadcast_arrays ::
  "'a ndarray \<Rightarrow> 'b ndarray \<Rightarrow> error + ('a ndarray \<times> 'b ndarray)" where
  "broadcast_arrays a b =
     ebind (broadcast_shapes (shape a) (shape b))
       (\<lambda>s. Inr (broadcast_to a s, broadcast_to b s))"

section \<open>Pubs, preprocessing and postprocessing\<close>

text \<open>
  An observable is the dictionary from operator labels to coefficients, in the order of
  its items; a coefficient is a Python complex (a float is the complex with imaginary
  part 0). The bindings array is the array of its parameter value sets; binding a
  circuit is Qiskit's, the parameter \<open>bind_circuit\<close>. The precision is a finite float.
\<close>

type_synonym observable = "(string \<times> complex) list"

record pub =
  circuit :: circuit
  observables :: "observable ndarray"
  parameter_values :: "real list ndarray"
  precision :: real

record preprocessed_data =
  circuits :: "circuit list"
  parameter_indices :: "nat list ndarray"
  bc_observables :: "observable ndarray"

text \<open>
  \<open>param_obs_map\<close> of lines 337 to 340 is a dictionary of sets, here the list of its
  items in insertion order, each set a list without repetition.
\<close>

fun update_set ::
  "(nat list \<times> string list) list \<Rightarrow> nat list \<Rightarrow> string list \<Rightarrow> (nat list \<times> string list) list" where
  "update_set [] k labels = [(k, List.union labels [])]"
| "update_set ((k', s) # rest) k labels =
     (if k' = k then (k', List.union labels s) # rest else (k', s) # update_set rest k labels)"

definition bind_and_add_measurements ::
  "qiskit \<Rightarrow> options \<Rightarrow> (real list ndarray \<Rightarrow> circuit \<Rightarrow> nat list \<Rightarrow> error + circuit) \<Rightarrow>
   circuit \<Rightarrow> real list ndarray \<Rightarrow> (nat list \<times> string list) list \<Rightarrow> error + circuit list" where
  "bind_and_add_measurements q opts bind_circuit circ pv param_obs_map =
     ebind
       (emap (\<lambda>(pidx, pauli_strings).
           ebind (bind_circuit pv circ pidx)
             (\<lambda>bound_circuit. ebind (pauli_list q (sort pauli_strings))
                (\<lambda>meas_paulis.
                   create_measurement_circuits q opts bound_circuit meas_paulis pidx)))
          param_obs_map)
       (\<lambda>new_circuits. Inr (concat new_circuits))"

definition preprocess_pub ::
  "qiskit \<Rightarrow> options \<Rightarrow> (real list ndarray \<Rightarrow> circuit \<Rightarrow> nat list \<Rightarrow> error + circuit) \<Rightarrow>
   pub \<Rightarrow> error + preprocessed_data" where
  "preprocess_pub q opts bind_circuit pb =
     (let circ = circuit pb;
          obs = observables pb;
          pv = parameter_values pb;
          param_shape = shape pv;
          param_indices = \<lparr>shape = param_shape, data = ndindex param_shape\<rparr>
      in ebind (broadcast_arrays param_indices obs)
           (\<lambda>(bc_param_ind, bc_obs).
              let param_obs_map =
                    fold (\<lambda>index m.
                        update_set m (getitem bc_param_ind index) (map fst (getitem bc_obs index)))
                      (ndindex (shape bc_param_ind)) []
              in ebind (bind_and_add_measurements q opts bind_circuit circ pv param_obs_map)
                   (\<lambda>bound_circuits.
                      Inr \<lparr>circuits = bound_circuits, parameter_indices = bc_param_ind,
                           bc_observables = bc_obs\<rparr>)))"

text \<open>
  The table of expectation values and variances, and the result of a pub. The three
  metadata entries of lines 376 to 378 are fields of the result.
\<close>

type_synonym expval_map = "nat list \<times> string \<Rightarrow> (npfloat \<times> npfloat) option"

record data_bin =
  evs :: "npfloat ndarray"
  stds :: "npfloat ndarray"
  bin_shape :: "nat list"

record pub_result =
  result_data :: data_bin
  target_precision :: real
  md_shots :: int
  circuit_metadata :: "meta option"

text \<open>
  The loop of lines 367 to 370 over the items of the observable at one index. The sum
  \<open>evs[index] + expval * coeff\<close> is a complex128 when the coefficient is complex, and
  the assignment into the float array keeps its real part.
\<close>

fun accumulate ::
  "expval_map \<Rightarrow> nat list \<Rightarrow> nat list \<Rightarrow> observable \<Rightarrow> npfloat ndarray \<times> npfloat ndarray \<Rightarrow>
   error + (npfloat ndarray \<times> npfloat ndarray)" where
  "accumulate em index pidx [] st = Inr st"
| "accumulate em index pidx ((label, coeff) # rest) (evs_a, variances) =
     (case em (pidx, label) of
        None \<Rightarrow> Inl KeyError
      | Some (expval, variance) \<Rightarrow>
          accumulate em index pidx rest
            (setitem evs_a index
               (astype_float
                  (cadd (complex_of_float (getitem evs_a index))
                     (cmul (complex_of_float expval) (npcomplex_of coeff)))),
             setitem variances index
               (fadd (getitem variances index)
                  (fmul (Fin (cmod coeff)) (fpow_half variance)))))"

fun postprocess_loop ::
  "expval_map \<Rightarrow> nat list ndarray \<Rightarrow> observable ndarray \<Rightarrow> nat list list \<Rightarrow>
   npfloat ndarray \<times> npfloat ndarray \<Rightarrow> error + (npfloat ndarray \<times> npfloat ndarray)" where
  "postprocess_loop em bc_param_ind bc_obs [] st = Inr st"
| "postprocess_loop em bc_param_ind bc_obs (index # rest) st =
     ebind (accumulate em index (getitem bc_param_ind index) (getitem bc_obs index) st)
       (postprocess_loop em bc_param_ind bc_obs rest)"

definition postprocess_pub ::
  "pub \<Rightarrow> expval_map \<Rightarrow> preprocessed_data \<Rightarrow> int \<Rightarrow> error + pub_result" where
  "postprocess_pub pb em d shots =
     (let bc_param_ind = parameter_indices d;
          bc_obs = bc_observables d
      in ebind (postprocess_loop em bc_param_ind bc_obs (ndindex (shape bc_param_ind))
                  (zeros_like bc_param_ind, zeros_like bc_param_ind))
           (\<lambda>(evs_a, variances).
              let stds_a = variances\<lparr>data := map (\<lambda>v. fdiv v (np_sqrt_int shots)) (data variances)\<rparr>;
                  bin = \<lparr>evs = evs_a, stds = stds_a, bin_shape = shape evs_a\<rparr>
              in Inr \<lparr>result_data = bin, target_precision = precision pb, md_shots = shots,
                      circuit_metadata = metadata (circuit pb)\<rparr>))"

section \<open>Running pubs on the backend\<close>

text \<open>
  What \<open>get_counts\<close> of a Result returns is one histogram or a list of them. A job of
  the backend is what its \<open>result()\<close> will give: the counts, or an exception. The
  backend is the flag of its version, its \<open>max_circuits\<close> and its \<open>run\<close>, which
  takes the circuits, the shots and the seed. Every call of \<open>run\<close> is written to a
  log, the list \<open>calls\<close> of the calls made so far with their circuits and shots: the log
  is the state that the functions below pass on.
\<close>

datatype get_counts_ret = Single counts | Many "counts list"

type_synonym backend_job = "error + get_counts_ret"

type_synonym call = "circuit list \<times> int"

record backend =
  is_backend_v2 :: bool
  max_circuits :: "int option"
  backend_run :: "circuit list \<Rightarrow> int \<Rightarrow> int option \<Rightarrow> error + backend_job"

text \<open>The jobs of line 67 to 70, one call of \<open>backend.run\<close> per chunk, in order.\<close>

fun submit_all ::
  "backend \<Rightarrow> circuit list list \<Rightarrow> int \<Rightarrow> int option \<Rightarrow> call list \<Rightarrow>
   (error + backend_job list) \<times> call list" where
  "submit_all be [] shots seed calls = (Inr [], calls)"
| "submit_all be (chunk # rest) shots seed calls =
     (case backend_run be chunk shots seed of
        Inl e \<Rightarrow> (Inl e, calls @ [(chunk, shots)])
      | Inr job \<Rightarrow>
          (case submit_all be rest shots seed (calls @ [(chunk, shots)]) of
             (Inl e, calls') \<Rightarrow> (Inl e, calls')
           | (Inr jobs, calls') \<Rightarrow> (Inr (job # jobs), calls')))"

text \<open>
  \<open>[circuits[pos : pos + max_circuits] for pos in range(0, len(circuits), max_circuits)]\<close>;
  the range is empty for a negative step.
\<close>

definition chunks :: "int \<Rightarrow> 'a list \<Rightarrow> 'a list list" where
  "chunks m xs =
     (if m \<le> 0 then []
      else map (\<lambda>k. take (nat m) (drop (k * nat m) xs))
             [0..<(length xs + nat m - 1) div nat m])"

definition run_circuits ::
  "backend \<Rightarrow> circuit list \<Rightarrow> int \<Rightarrow> int option \<Rightarrow> call list \<Rightarrow>
   (error + (get_counts_ret list \<times> meta option list)) \<times> call list" where
  "run_circuits be circs shots seed calls =
     (let metadata_list = map metadata circs;
          circs' = map (\<lambda>c. c\<lparr>metadata := None\<rparr>) circs
      in if \<not> is_backend_v2 be then (Inl RuntimeError, calls)
         else
           (case submit_all be
                   (case max_circuits be of
                      None \<Rightarrow> [circs']
                    | Some m \<Rightarrow> if m = 0 then [circs'] else chunks m circs')
                   shots seed calls of
              (Inl e, calls') \<Rightarrow> (Inl e, calls')
            | (Inr jobs, calls') \<Rightarrow>
                (case emap (\<lambda>job. job) jobs of
                   Inl e \<Rightarrow> (Inl e, calls')
                 | Inr results \<Rightarrow> (Inr (results, metadata_list), calls'))))"

definition prepare_counts :: "get_counts_ret list \<Rightarrow> counts list" where
  "prepare_counts results =
     concat (map (\<lambda>res. case res of Single c \<Rightarrow> [c] | Many cs \<Rightarrow> cs) results)"

text \<open>
  Lines 430 to 438. A circuit without the estimator's metadata has no key
  \<open>orig_paulis\<close>: KeyError. The table is a dictionary, here a partial function.
\<close>

fun calc_expval_loop ::
  "qiskit \<Rightarrow> (counts \<times> meta option) list \<Rightarrow> expval_map \<Rightarrow> error + expval_map" where
  "calc_expval_loop q [] em = Inr em"
| "calc_expval_loop q ((cnt, None) # rest) em = Inl KeyError"
| "calc_expval_loop q ((cnt, Some mt) # rest) em =
     ebind (pauli_expval_with_variance cnt (meas_paulis mt))
       (\<lambda>(expvals, variances).
          calc_expval_loop q rest
            (fold (\<lambda>(p, expval, variance) m.
                 m((param_index mt, to_label q p) \<mapsto> (expval, variance)))
               (zip (orig_paulis mt) (zip expvals variances)) em))"

definition calc_expval_map ::
  "qiskit \<Rightarrow> counts list \<Rightarrow> meta option list \<Rightarrow> error + expval_map" where
  "calc_expval_map q cnts metadata_list = calc_expval_loop q (zip cnts metadata_list) Map.empty"

text \<open>
  The estimator itself: what it takes from Qiskit, its options, its backend, and the
  binding of a bindings array to a circuit.
\<close>

record estimator =
  est_qiskit :: qiskit
  est_options :: options
  est_backend :: backend
  est_bind :: "real list ndarray \<Rightarrow> circuit \<Rightarrow> nat list \<Rightarrow> error + circuit"

text \<open>The slice \<open>a[start:stop]\<close> of a list.\<close>

definition slice :: "'a list \<Rightarrow> nat \<Rightarrow> nat \<Rightarrow> 'a list" where
  "slice a start stop = take (stop - start) (drop start a)"

text \<open>The second loop of \<open>_run_pubs\<close>, lines 305 to 311.\<close>

fun postprocess_all ::
  "estimator \<Rightarrow> (pub \<times> preprocessed_data) list \<Rightarrow> counts list \<Rightarrow> meta option list \<Rightarrow>
   int \<Rightarrow> nat \<Rightarrow> error + pub_result list" where
  "postprocess_all self [] cnts metadata_list shots start = Inr []"
| "postprocess_all self ((pb, d) # rest) cnts metadata_list shots start =
     (let stop = start + length (circuits d) in
      ebind (calc_expval_map (est_qiskit self) (slice cnts start stop)
               (slice metadata_list start stop))
        (\<lambda>em. ebind (postprocess_pub pb em d shots)
           (\<lambda>r. ebind (postprocess_all self rest cnts metadata_list shots stop)
              (\<lambda>rs. Inr (r # rs)))))"

definition run_pubs ::
  "estimator \<Rightarrow> pub list \<Rightarrow> int \<Rightarrow> call list \<Rightarrow> (error + pub_result list) \<times> call list" where
  "run_pubs self pubs shots calls =
     (case emap (preprocess_pub (est_qiskit self) (est_options self) (est_bind self)) pubs of
        Inl e \<Rightarrow> (Inl e, calls)
      | Inr preprocessed \<Rightarrow>
          (let flat_circuits = concat (map circuits preprocessed) in
           case run_circuits (est_backend self) flat_circuits shots
                  (seed_simulator (est_options self)) calls of
             (Inl e, calls') \<Rightarrow> (Inl e, calls')
           | (Inr (run_result, metadata_list), calls') \<Rightarrow>
               (postprocess_all self (zip pubs preprocessed) (prepare_counts run_result)
                  metadata_list shots 0, calls')))"

text \<open>
  Line 279, \<open>int(math.ceil(1.0 / pub.precision**2))\<close>, is computed on Python floats, and
  here the rounding is modelled. A finite float is a binary64 of IEEE 754: zero or
  \<open>\<plusminus> m * 2 ^ e\<close> with an integer \<open>m < 2 ^ 53\<close> and \<open>- 1074 \<le> e \<le> 971\<close>. The result
  of an operation is the float nearest to the exact result, a tie going to the even
  \<open>m\<close>: \<open>round_half_even\<close> rounds to an integer, \<open>float_exponent a\<close> is the \<open>e\<close> with
  \<open>2 ^ e \<le> a < 2 ^ (e + 1)\<close>, found by bisection and kept within \<open>- 1075\<close> and \<open>1024\<close>,
  and \<open>f64_round\<close> rounds to a multiple of the unit in the last place, \<open>2 ^ (e - 52)\<close>
  and never below \<open>2 ^ - 1074\<close>, with infinity from \<open>2 ^ 1024\<close> on. The sign of zero is
  not modelled.
\<close>

definition round_half_even :: "real \<Rightarrow> int" where
  "round_half_even m =
     (let f = \<lfloor>m\<rfloor>; r = m - of_int f
      in if r < 1 / 2 then f else if 1 / 2 < r then f + 1 else if even f then f else f + 1)"

fun bisect :: "nat \<Rightarrow> int \<Rightarrow> int \<Rightarrow> real \<Rightarrow> int" where
  "bisect 0 lo hi a = lo"
| "bisect (Suc n) lo hi a =
     (if hi \<le> lo + 1 then lo
      else let mid = (lo + hi) div 2
           in if 2 powi mid \<le> a then bisect n mid hi a else bisect n lo mid a)"

definition float_exponent :: "real \<Rightarrow> int" where
  "float_exponent a = bisect 12 (- 1075) 1025 a"

definition f64_round :: "real \<Rightarrow> npfloat" where
  "f64_round v =
     (let a = \<bar>v\<bar>;
          e = max (float_exponent a) (- 1022);
          ulp = 2 powi (e - 52);
          m = of_int (round_half_even (a / ulp)) * ulp
      in if 2 powi 1024 \<le> m then (if v < 0 then NInf else PInf)
         else Fin (if v < 0 then - m else m))"

text \<open>
  The three operations of line 279 on a finite \<open>precision\<close>. \<open>precision**2\<close> is the
  square rounded (the \<open>pow\<close> of the C library, taken to round correctly); Python raises
  OverflowError when it is out of range, and a square too small for a float is 0.0.
  \<open>1.0 / x\<close> raises ZeroDivisionError at 0.0 and is the quotient rounded otherwise,
  which can be infinity; \<open>math.ceil\<close> of infinity raises OverflowError.
\<close>

definition shots_of_precision :: "real \<Rightarrow> error + int" where
  "shots_of_precision p =
     (case f64_round (p * p) of
        Fin sq \<Rightarrow>
          if sq = 0 then Inl ZeroDivisionError
          else (case f64_round (1 / sq) of
                  Fin ratio \<Rightarrow> Inr \<lceil>ratio\<rceil>
                | _ \<Rightarrow> Inl OverflowError)
      | _ \<Rightarrow> Inl OverflowError)"

text \<open>
  \<open>pub_dict\<close> of lines 276 to 280, the dictionary from shots to the indices of the pubs
  that need them, as the list of its items in insertion order.
\<close>

fun dict_append :: "(int \<times> nat list) list \<Rightarrow> int \<Rightarrow> nat \<Rightarrow> (int \<times> nat list) list" where
  "dict_append [] k i = [(k, [i])]"
| "dict_append ((k', l) # rest) k i =
     (if k' = k then (k', l @ [i]) # rest else (k', l) # dict_append rest k i)"

fun consolidate ::
  "(nat \<times> pub) list \<Rightarrow> (int \<times> nat list) list \<Rightarrow> error + (int \<times> nat list) list" where
  "consolidate [] pub_dict = Inr pub_dict"
| "consolidate ((i, pb) # rest) pub_dict =
     ebind (shots_of_precision (precision pb))
       (\<lambda>shots. consolidate rest (dict_append pub_dict shots i))"

text \<open>The loop of lines 283 to 288 over the items of \<open>pub_dict\<close>.\<close>

fun run_groups ::
  "estimator \<Rightarrow> pub list \<Rightarrow> (int \<times> nat list) list \<Rightarrow> pub_result option list \<Rightarrow> call list \<Rightarrow>
   (error + pub_result option list) \<times> call list" where
  "run_groups self pubs [] results calls = (Inr results, calls)"
| "run_groups self pubs ((shots, lst) # rest) results calls =
     (case run_pubs self (map (\<lambda>i. pubs ! i) lst) shots calls of
        (Inl e, calls') \<Rightarrow> (Inl e, calls')
      | (Inr pub_results, calls') \<Rightarrow>
          run_groups self pubs rest
            (fold (\<lambda>(i, pub_result) rs. rs[i := Some pub_result]) (zip lst pub_results) results)
            calls')"

record primitive_result =
  pub_results :: "pub_result option list"
  version :: nat

text \<open>\<open>_run\<close>; the name \<open>run\<close> is that of the public method below.\<close>

definition run_private ::
  "estimator \<Rightarrow> pub list \<Rightarrow> call list \<Rightarrow> (error + primitive_result) \<times> call list" where
  "run_private self pubs calls =
     (case consolidate (zip [0..<length pubs] pubs) [] of
        Inl e \<Rightarrow> (Inl e, calls)
      | Inr pub_dict \<Rightarrow>
          (case run_groups self pubs pub_dict (replicate (length pubs) None) calls of
             (Inl e, calls') \<Rightarrow> (Inl e, calls')
           | (Inr results, calls') \<Rightarrow> (Inr \<lparr>pub_results = results, version = 2\<rparr>, calls')))"

fun validate_pubs :: "(nat \<times> pub) list \<Rightarrow> error + unit" where
  "validate_pubs [] = Inr ()"
| "validate_pubs ((i, pb) # rest) =
     (if precision pb \<le> 0 then Inl ValueError else validate_pubs rest)"

text \<open>
  \<open>run\<close>. \<open>EstimatorPub.coerce\<close> is Qiskit's, the parameter \<open>coerce\<close>. The job that
  \<open>run\<close> returns holds what \<open>_run\<close> gave, a result or an exception.
\<close>

definition run ::
  "estimator \<Rightarrow> ('p \<Rightarrow> real \<Rightarrow> error + pub) \<Rightarrow> 'p list \<Rightarrow> real option \<Rightarrow> call list \<Rightarrow>
   (error + (error + primitive_result)) \<times> call list" where
  "run self coerce pubs precision_arg calls =
     (let prec = (case precision_arg of
                    None \<Rightarrow> default_precision (est_options self)
                  | Some p \<Rightarrow> p)
      in case emap (\<lambda>pb. coerce pb prec) pubs of
           Inl e \<Rightarrow> (Inl e, calls)
         | Inr coerced_pubs \<Rightarrow>
             (case validate_pubs (zip [0..<length coerced_pubs] coerced_pubs) of
                Inl e \<Rightarrow> (Inl e, calls)
              | Inr _ \<Rightarrow>
                  (let (job, calls') = run_private self coerced_pubs calls in (Inr job, calls'))))"

text \<open>The pairs of shots and pub index that \<open>pub_dict\<close> holds.\<close>

definition dict_members :: "(int \<times> nat list) list \<Rightarrow> (int \<times> nat) set" where
  "dict_members d = {(k, i). \<exists>l. (k, l) \<in> set d \<and> i \<in> set l}"

text \<open>
  What the loops of postprocessing leave in one cell, as folds over the items of the
  observable there: \<open>cell_evs\<close> and \<open>cell_err\<close> with the complex coefficients of the
  source. \<open>spec_evs\<close> and \<open>spec_err_accum\<close> follow the words of the specification
  (\<open>evs[index] += coeff * expectation\<close>, \<open>err_accum[index] += |coeff| * sqrt(variance)\<close>)
  for real coefficients.
\<close>

definition expectation_at :: "expval_map \<Rightarrow> nat list \<Rightarrow> string \<Rightarrow> npfloat" where
  "expectation_at em pidx label = fst (the (em (pidx, label)))"

definition variance_at :: "expval_map \<Rightarrow> nat list \<Rightarrow> string \<Rightarrow> npfloat" where
  "variance_at em pidx label = snd (the (em (pidx, label)))"

definition cell_evs :: "expval_map \<Rightarrow> nat list \<Rightarrow> observable \<Rightarrow> npfloat \<Rightarrow> npfloat" where
  "cell_evs em pidx items a0 =
     foldl (\<lambda>acc (label, coeff). fadd acc (fmul (expectation_at em pidx label) (Fin (Re coeff))))
       a0 items"

definition cell_err :: "expval_map \<Rightarrow> nat list \<Rightarrow> observable \<Rightarrow> npfloat \<Rightarrow> npfloat" where
  "cell_err em pidx items v0 =
     foldl (\<lambda>acc (label, coeff).
         fadd acc (fmul (Fin (cmod coeff)) (fpow_half (variance_at em pidx label))))
       v0 items"

definition spec_evs :: "expval_map \<Rightarrow> nat list \<Rightarrow> (string \<times> real) list \<Rightarrow> npfloat" where
  "spec_evs em pidx items =
     foldl (\<lambda>acc (label, coeff). fadd acc (fmul (Fin coeff) (expectation_at em pidx label)))
       (Fin 0) items"

definition spec_err_accum :: "expval_map \<Rightarrow> nat list \<Rightarrow> (string \<times> real) list \<Rightarrow> npfloat" where
  "spec_err_accum em pidx items =
     foldl (\<lambda>acc (label, coeff).
         fadd acc (fmul (Fin \<bar>coeff\<bar>) (fpow_half (variance_at em pidx label))))
       (Fin 0) items"

section \<open>Example inputs\<close>

text \<open>
  A one-qubit circuit, a stand-in for Qiskit in which every label is the operator Z, a
  pub whose bindings have shape (3,) and whose observables have shape (1,), and a pub
  and its preprocessed data of shape () for one observable.
\<close>

definition example_circuit :: circuit where
  "example_circuit = \<lparr>num_qubits = 1, cregs = [], ops = [Gate ''ry'' [0] []], metadata = None\<rparr>"

definition zq :: qiskit where
  "zq = \<lparr>pauli_str = (\<lambda>_. ''Z''), to_label = (\<lambda>_. ''Z''),
         pauli_list = (\<lambda>labels. Inr (map (\<lambda>_. \<lparr>z = [True], x = [False], phase = 0\<rparr>) labels)),
         group_commuting = (\<lambda>ps. [ps]), passmanager_run = (\<lambda>cs. cs)\<rparr>"

definition ex_pub :: pub where
  "ex_pub = \<lparr>circuit = example_circuit,
         observables = \<lparr>shape = [1], data = [[(''Z'', 1)]]\<rparr>,
         parameter_values = \<lparr>shape = [3], data = [[0], [1], [2]]\<rparr>, precision = 1 / 16\<rparr>"

definition scalar_data :: "observable \<Rightarrow> preprocessed_data" where
  "scalar_data ob = \<lparr>circuits = [], parameter_indices = \<lparr>shape = [], data = [[]]\<rparr>,
         bc_observables = \<lparr>shape = [], data = [ob]\<rparr>\<rparr>"

definition scalar_pub :: "observable \<Rightarrow> pub" where
  "scalar_pub ob = \<lparr>circuit = example_circuit, observables = \<lparr>shape = [], data = [ob]\<rparr>,
         parameter_values = \<lparr>shape = [], data = [[]]\<rparr>, precision = 1 / 16\<rparr>"

text \<open>
  Options, a backend that measures 0 on every shot, an estimator on it, and the
  measurement circuit and metadata that preprocessing gives the pub of shape ().
\<close>

definition ex_options :: options where
  "ex_options = \<lparr>default_precision = 1 / 64, abelian_grouping = True, seed_simulator = None\<rparr>"

definition ex_backend :: backend where
  "ex_backend = \<lparr>is_backend_v2 = True, max_circuits = None,
     backend_run = (\<lambda>circs shots seed. Inr (Inr (Many (map (\<lambda>_. [(''0'', shots)]) circs))))\<rparr>"

definition ex_estimator :: estimator where
  "ex_estimator = \<lparr>est_qiskit = zq, est_options = ex_options, est_backend = ex_backend,
     est_bind = (\<lambda>pv c i. Inr c)\<rparr>"

definition ex_meta :: meta where
  "ex_meta = \<lparr>orig_paulis = [\<lparr>z = [True], x = [False], phase = 0\<rparr>],
     meas_paulis = [\<lparr>z = [True], x = [False], phase = 0\<rparr>], param_index = []\<rparr>"

definition ex_measured :: circuit where
  "ex_measured = \<lparr>num_qubits = 1, cregs = [(''__c_Z'', 1)],
     ops = [Gate ''ry'' [0] [], Measure 0 0], metadata = Some ex_meta\<rparr>"

definition ex_meas_circuit :: circuit where
  "ex_meas_circuit = \<lparr>num_qubits = 1, cregs = [(''__c_Z'', 1)], ops = [Measure 0 0],
     metadata = Some ex_meta\<rparr>"












section \<open>The estimator: parity, masks and the two loops\<close>

lemma count_list_bin_digits: "count_list (bin_digits n) CHR ''1'' = popcount n"
proof (induction n rule: bin_digits.induct)
  case (1 n)
  show ?case
  proof (cases "n < 2")
    case True
    then have "n = 0 \<or> n = 1" by auto
    then show ?thesis
      by (auto simp: bin_digits.simps [of 0] bin_digits.simps [of 1] bin_digits.simps [of "Suc 0"]
          popcount.simps [of 0] popcount.simps [of 1] popcount.simps [of "Suc 0"])
  next
    case False
    with 1 have ih: "count_list (bin_digits (n div 2)) CHR ''1'' = popcount (n div 2)"
      by simp
    from False have "bin_digits n = bin_digits (n div 2) @ [if even n then CHR ''0'' else CHR ''1'']"
      by (subst bin_digits.simps) simp
    moreover from False have "popcount n = n mod 2 + popcount (n div 2)"
      by (subst popcount.simps) simp
    ultimately show ?thesis
      using ih by (auto simp: odd_iff_mod_2_eq_one)
  qed
qed

lemma parity_popcount: "parity i = int (popcount (nat \<bar>i\<bar>)) mod 2"
  by (simp add: parity_def py_bin_def count_list_bin_digits)

lemma sign_parity: "((- 1) :: int) ^ nat (parity i) = (- 1) ^ popcount (nat \<bar>i\<bar>)"
proof -
  have "nat (parity i) = popcount (nat \<bar>i\<bar>) mod 2"
    by (simp add: parity_popcount nat_mod_distrib flip: of_nat_mod)
  then show ?thesis
    by (simp add: minus_one_power_iff even_iff_mod_2_eq_zero)
qed

lemma byte_of_bits_horner: "int (byte_of_bits bs) = horner_sum of_bool 2 bs"
  by (induction bs) auto

lemma packbits_value:
  "(\<Sum>(v, w)\<leftarrow>zip (packbits bs) (map (\<lambda>j. (2::int) ^ (8 * j)) [k..<k + length (packbits bs)]). int v * w)
     = 2 ^ (8 * k) * horner_sum of_bool 2 bs"
proof (induction bs arbitrary: k rule: packbits.induct)
  case (1 bs)
  show ?case
  proof (cases "bs = []")
    case True
    then show ?thesis by (simp add: packbits.simps [of "[]"])
  next
    case False
    then have pb: "packbits bs = byte_of_bits (take 8 bs) # packbits (drop 8 bs)"
      by (subst packbits.simps) simp
    have ih: "(\<Sum>(v, w)\<leftarrow>zip (packbits (drop 8 bs)) (map (\<lambda>j. (2::int) ^ (8 * j)) [Suc k..<Suc k + length (packbits (drop 8 bs))]). int v * w)
     = 2 ^ (8 * Suc k) * horner_sum of_bool 2 (drop 8 bs)"
      using 1 [OF False, of "Suc k"] .
    have split: "horner_sum of_bool (2::int) bs = horner_sum of_bool 2 (take 8 bs) + 2 ^ length (take 8 bs) * horner_sum of_bool 2 (drop 8 bs)"
      using horner_sum_append [of of_bool "2::int" "take 8 bs" "drop 8 bs"] by simp
    have upt: "[k..<k + length (packbits bs)] = k # [Suc k..<Suc k + length (packbits (drop 8 bs))]"
      by (simp add: pb upt_conv_Cons del: upt_Suc)
    show ?thesis
    proof (cases "length bs < 8")
      case True
      then have d: "drop 8 bs = []" by simp
      show ?thesis using True
        by (simp add: pb d packbits.simps [of "[]"] upt_conv_Cons byte_of_bits_horner)
    next
      case ge: False
      then have "length (take 8 bs) = 8" by simp
      with split have "horner_sum of_bool (2::int) bs = horner_sum of_bool 2 (take 8 bs) + 2 ^ 8 * horner_sum of_bool 2 (drop 8 bs)" by simp
      then show ?thesis
        unfolding upt using ih
        by (simp add: pb byte_of_bits_horner algebra_simps power_add)
    qed
  qed
qed

lemma paulis2inds_mask:
  "paulis2inds paulis = map (\<lambda>p. horner_sum of_bool 2 (map2 (\<or>) (z p) (x p))) paulis"
  using packbits_value [of _ 0]
  by (simp add: paulis2inds_def Let_def)

lemma horner_nonneg: "0 \<le> (horner_sum of_bool 2 bs :: int)"
  by (induction bs) auto

lemma fold_update_pointwise:
  "n \<le> length es \<Longrightarrow>
   fold (\<lambda>k ev. ev[k := g k (ev ! k)]) [0..<n] es =
     map (\<lambda>k. if k < n then g k (es ! k) else es ! k) [0..<length es]"
proof (induction n)
  case 0
  then show ?case by (simp add: map_nth)
next
  case (Suc n)
  then have ih: "fold (\<lambda>k ev. ev[k := g k (ev ! k)]) [0..<n] es =
     map (\<lambda>k. if k < n then g k (es ! k) else es ! k) [0..<length es]"
    by simp
  show ?case
    using Suc.prems
    by (auto simp: ih intro!: nth_equalityI simp: nth_list_update less_Suc_eq)
qed


lemma add_outcome_Fin:
  assumes "length rs = sz"
  shows "add_outcome sz diag b f (map Fin rs) =
     map Fin (map (\<lambda>k. rs ! k + of_int (term_of (diag ! k) b f)) [0..<sz])"
proof -
  have "add_outcome sz diag b f (map Fin rs) =
      map (\<lambda>k. if k < sz then fadd (map Fin rs ! k) (Fin (of_int (term_of (diag ! k) b f)))
                else map Fin rs ! k) [0..<length (map Fin rs)]"
    unfolding add_outcome_def Let_def term_of_def
    by (rule fold_update_pointwise) (simp add: assms)
  also have "\<dots> = map Fin (map (\<lambda>k. rs ! k + of_int (term_of (diag ! k) b f)) [0..<sz])"
    using assms by (auto intro!: nth_equalityI)
  finally show ?thesis .
qed

lemma count_loop_Fin:
  assumes "list_all2 (\<lambda>kf b. outcome_of (fst kf) = Inr b) cnts bs" and "length rs = sz"
  shows "count_loop sz diag cnts (map Fin rs, d) =
     Inr (map Fin (map (\<lambda>k. rs ! k +
            of_int (\<Sum>(b, f)\<leftarrow>zip bs (map snd cnts). term_of (diag ! k) b f)) [0..<sz]),
          d + sum_list (map snd cnts))"
  using assms
proof (induction cnts bs arbitrary: rs d rule: list_all2_induct)
  case Nil
  then show ?case by (auto intro!: nth_equalityI)
next
  case (Cons kf cnts b bs)
  obtain key f where kf: "kf = (key, f)" by (cases kf)
  from Cons.hyps kf have p: "outcome_of key = Inr b" by simp
  let ?rs' = "map (\<lambda>k. rs ! k + of_int (term_of (diag ! k) b f)) [0..<sz]"
  have len: "length ?rs' = sz" by simp
  have "count_loop sz diag (kf # cnts) (map Fin rs, d) =
        count_loop sz diag cnts (map Fin ?rs', d + f)"
    by (simp add: kf p add_outcome_Fin [OF Cons.prems])
  also have "\<dots> = Inr (map Fin (map (\<lambda>k. ?rs' ! k +
            of_int (\<Sum>(b, f)\<leftarrow>zip bs (map snd cnts). term_of (diag ! k) b f)) [0..<sz]),
          d + f + sum_list (map snd cnts))"
    by (rule Cons.IH [OF len])
  finally show ?case
    by (simp add: kf add.assoc)
qed

lemma estimator_result:
  assumes "list_all2 (\<lambda>kf b. outcome_of (fst kf) = Inr b) cnts bs"
  shows "pauli_expval_with_variance cnts paulis =
     Inr (map (\<lambda>k. fdiv (Fin (of_int (\<Sum>(b, f)\<leftarrow>zip bs (map snd cnts). term_of (paulis2inds paulis ! k) b f)))
                         (Fin (of_int (sum_list (map snd cnts))))) [0..<length paulis],
          map (\<lambda>k. let e = fdiv (Fin (of_int (\<Sum>(b, f)\<leftarrow>zip bs (map snd cnts). term_of (paulis2inds paulis ! k) b f)))
                         (Fin (of_int (sum_list (map snd cnts))))
                    in fsub (Fin 1) (fmul e e)) [0..<length paulis])"
proof -
  have r: "replicate (length paulis) (Fin 0) = map Fin (replicate (length paulis) 0)"
    by simp
  have "count_loop (length paulis) (paulis2inds paulis) cnts (replicate (length paulis) (Fin 0), 0) =
     Inr (map Fin (map (\<lambda>k. replicate (length paulis) 0 ! k +
            of_int (\<Sum>(b, f)\<leftarrow>zip bs (map snd cnts). term_of (paulis2inds paulis ! k) b f)) [0..<length paulis]),
          0 + sum_list (map snd cnts))"
    unfolding r by (rule count_loop_Fin [OF assms]) simp
  then show ?thesis
    by (simp add: pauli_expval_with_variance_def Let_def comp_def)
qed

lemma term_of_popcount:
  "0 \<le> m \<Longrightarrow> term_of m b f = f * (- 1) ^ popcount (nat (m AND b))"
  by (simp add: term_of_def sign_parity)

lemma abs_sum_terms:
  assumes "\<forall>f\<in>set fs. 0 \<le> f"
  shows "\<bar>\<Sum>(b, f)\<leftarrow>zip bs fs. term_of m b f\<bar> \<le> sum_list fs"
  using assms
proof (induction bs fs rule: list_induct2')
  case (4 b bs f fs)
  then have ih: "\<bar>\<Sum>(b, f)\<leftarrow>zip bs fs. term_of m b f\<bar> \<le> sum_list fs" by simp
  from 4 have f: "0 \<le> f" by simp
  have "\<bar>term_of m b f\<bar> = f"
    using f by (simp add: term_of_def abs_mult power_abs)
  then show ?case using ih by simp
qed (simp_all add: sum_list_nonneg)

lemma zero_sum_terms:
  assumes "\<forall>f\<in>set fs. 0 \<le> f" and "sum_list fs = 0"
  shows "(\<Sum>(b, f)\<leftarrow>zip bs fs. term_of m b f) = 0"
  using abs_sum_terms [OF assms(1), where bs = bs and m = m] assms(2) by simp

lemma paulis2inds_nonneg: "k < length paulis \<Longrightarrow> 0 \<le> paulis2inds paulis ! k"
  by (simp add: paulis2inds_mask horner_nonneg)

lemmas parse_defs = outcome_of_def split_outcome_def py_split_space1_def py_int2_def strip_def
  is_space_def skip_sign_def skip_prefix_def is_bit_def bit_val_def

lemma parse_example: "list_all2 (\<lambda>kf b. outcome_of (fst kf) = Inr b) [(''0'', 700), (''1'', 300)] [0, 1]"
  by (simp add: parse_defs)

lemma mask_example: "paulis2inds [\<lparr>z = [True], x = [False], phase = 0\<rparr>] = [1]"
  by code_simp

lemma popcount_example: "popcount 0 = 0" "popcount (Suc 0) = 1"
  by code_simp+

section \<open>Claims about the expectation estimator\<close>

text \<open>
  C3. For every count histogram with positive total frequency (frequencies are not
  negative, every key parses to its outcome \<open>b\<close>) and every measured operator with
  non-identity mask \<open>m\<close>, the estimator returns the expectation
  \<open>(\<Sum>b. f\<^sub>b * (-1) ^ popcount (m AND b)) / (\<Sum>b. f\<^sub>b)\<close>; it lies between -1 and 1, and
  the variance returned with it is \<open>1 - expectation\<^sup>2\<close>. The mask is the entry of
  \<open>paulis2inds\<close>, which \<open>paulis2inds_mask\<close> shows to be the number whose binary digits,
  the least significant first, are the bits \<open>z \<or> x\<close> of the operator.
\<close>

theorem expectation_formula:
  fixes cnts :: counts
  assumes parse: "list_all2 (\<lambda>kf b. outcome_of (fst kf) = Inr b) cnts bs"
    and nonneg: "\<forall>f\<in>set (map snd cnts). 0 \<le> f"
    and total: "0 < sum_list (map snd cnts)"
    and k: "k < length paulis"
  defines "m \<equiv> paulis2inds paulis ! k"
  defines "e \<equiv> real_of_int (\<Sum>(b, f)\<leftarrow>zip bs (map snd cnts). f * (- 1) ^ popcount (nat (m AND b)))
            / real_of_int (sum_list (map snd cnts))"
  shows "\<exists>es vs.
      pauli_expval_with_variance cnts paulis = Inr (es, vs) \<and>
      length es = length paulis \<and> length vs = length paulis \<and>
      es ! k = Fin e \<and> - 1 \<le> e \<and> e \<le> 1 \<and> vs ! k = Fin (1 - e\<^sup>2)"
proof -
  let ?m = "paulis2inds paulis ! k"
  let ?T = "sum_list (map snd cnts)"
  let ?S = "\<Sum>(b, f)\<leftarrow>zip bs (map snd cnts). term_of ?m b f"
  let ?e = "real_of_int ?S / real_of_int ?T"
  have S: "?S = (\<Sum>(b, f)\<leftarrow>zip bs (map snd cnts). f * (- 1) ^ popcount (nat (?m AND b)))"
    by (simp add: term_of_popcount [OF paulis2inds_nonneg [OF k]])
  have "\<bar>?S\<bar> \<le> ?T" by (rule abs_sum_terms [OF nonneg])
  then have "\<bar>real_of_int ?S\<bar> \<le> real_of_int ?T"
    by (metis of_int_abs of_int_le_iff)
  with total have bound: "\<bar>?e\<bar> \<le> 1" by simp
  have d: "fdiv (Fin (real_of_int ?S)) (Fin (real_of_int ?T)) = Fin ?e"
    using total by simp
  let ?es = "map (\<lambda>k. fdiv (Fin (of_int (\<Sum>(b, f)\<leftarrow>zip bs (map snd cnts). term_of (paulis2inds paulis ! k) b f)))
                         (Fin (of_int ?T))) [0..<length paulis]"
  let ?vs = "map (\<lambda>k. let e = fdiv (Fin (of_int (\<Sum>(b, f)\<leftarrow>zip bs (map snd cnts). term_of (paulis2inds paulis ! k) b f)))
                         (Fin (of_int ?T))
                    in fsub (Fin 1) (fmul e e)) [0..<length paulis]"
  have r: "pauli_expval_with_variance cnts paulis = Inr (?es, ?vs)"
    by (rule estimator_result [OF parse])
  have "?es ! k = fdiv (Fin (real_of_int ?S)) (Fin (real_of_int ?T))"
    using k by (simp del: fdiv.simps)
  then have ek: "?es ! k = Fin ?e" by (simp only: d)
  have "?vs ! k = (let e = fdiv (Fin (real_of_int ?S)) (Fin (real_of_int ?T))
                    in fsub (Fin 1) (fmul e e))"
    using k by (simp del: fdiv.simps)
  then have vk: "?vs ! k = Fin (1 - ?e\<^sup>2)"
    by (simp only: d Let_def) (simp add: fsub_def power2_eq_square)
  have e_eq: "?e = e"
    using S by (simp add: e_def m_def)
  from bound have lo: "- 1 \<le> ?e" and hi: "?e \<le> 1"
    unfolding abs_le_iff by linarith+
  have "length ?es = length paulis" "length ?vs = length paulis" by simp_all
  with r ek vk lo hi show ?thesis unfolding e_eq by blast
qed

theorem expectation_formula_witness:
  "\<exists>es vs. pauli_expval_with_variance [(''0'', 700), (''1'', 300)]
       [\<lparr>z = [True], x = [False], phase = 0\<rparr>] = Inr (es, vs) \<and>
     es ! 0 = Fin (2 / 5) \<and> vs ! 0 = Fin (21 / 25)"
  using expectation_formula [OF parse_example, of 0 "[\<lparr>z = [True], x = [False], phase = 0\<rparr>]"]
  by (auto simp: mask_example popcount_example power2_eq_square)

text \<open>
  C1 as the code behaves. The claim asks for an error on a histogram whose total
  frequency is zero. The estimator has no such check: the division by the total is
  numpy's, which yields NaN. The counterexample is the histogram \<open>{"0": 0}\<close>.
\<close>

theorem zero_total_counterexample:
  "pauli_expval_with_variance [(''0'', 0)] [\<lparr>z = [True], x = [False], phase = 0\<rparr>] =
     Inr ([NaN], [NaN]) \<and>
   \<not> isl (pauli_expval_with_variance [(''0'', 0)] [\<lparr>z = [True], x = [False], phase = 0\<rparr>])"
proof -
  have p: "list_all2 (\<lambda>kf b. outcome_of (fst kf) = Inr b) [(''0'', 0)] [0]"
    by (simp add: parse_defs)
  show ?thesis
    by (simp add: estimator_result [OF p] inf_of_sign_def fsub_def term_of_def)
qed

text \<open>
  C1, amended. For every count histogram whose total frequency is zero (frequencies not
  negative, every key parses), the estimator raises nothing and returns NaN for the
  expectation and for the variance of every operator.
\<close>

theorem zero_total_gives_nan:
  assumes parse: "list_all2 (\<lambda>kf b. outcome_of (fst kf) = Inr b) cnts bs"
    and nonneg: "\<forall>f\<in>set (map snd cnts). 0 \<le> f"
    and total: "sum_list (map snd cnts) = 0"
  shows "pauli_expval_with_variance cnts paulis =
      Inr (replicate (length paulis) NaN, replicate (length paulis) NaN)"
  by (simp add: estimator_result [OF parse] zero_sum_terms [OF nonneg total] total
      inf_of_sign_def fsub_def Let_def map_replicate_const)

theorem zero_total_gives_nan_witness:
  "pauli_expval_with_variance [(''0'', 0), (''1 101'', 0)]
       [\<lparr>z = [True], x = [False], phase = 0\<rparr>] = Inr ([NaN], [NaN])"
proof -
  have p: "list_all2 (\<lambda>kf b. outcome_of (fst kf) = Inr b) [(''0'', 0), (''1 101'', 0)] [0, 1]"
    by code_simp
  show ?thesis
    using zero_total_gives_nan [OF p, of "[\<lparr>z = [True], x = [False], phase = 0\<rparr>]"] by simp
qed

lemma outcome_of_prefix: "outcome_of key = py_int2 (takeWhile (\<lambda>c. c \<noteq> CHR 0x20) key)"
proof (cases "CHR 0x20 \<in> set key")
  case True
  then have "dropWhile (\<lambda>c. c \<noteq> CHR 0x20) key \<noteq> []"
    by (simp add: dropWhile_eq_Nil_conv)
  then show ?thesis
    using True by (auto simp: outcome_of_def split_outcome_def py_split_space1_def split: list.splits)
next
  case False
  then have tw: "takeWhile (\<lambda>c. c \<noteq> CHR 0x20) key = key"
    by (induction key) auto
  show ?thesis
    by (subst tw) (simp add: False outcome_of_def split_outcome_def)
qed

lemma count_loop_cong:
  "list_all2 (\<lambda>a b. outcome_of (fst a) = outcome_of (fst b) \<and> snd a = snd b) cs cs' \<Longrightarrow>
   count_loop sz d cs st = count_loop sz d cs' st"
proof (induction cs cs' arbitrary: st rule: list_all2_induct)
  case Nil
  then show ?case by simp
next
  case (Cons a cs b cs')
  obtain k f where a: "a = (k, f)" by (cases a)
  obtain k' f' where b: "b = (k', f')" by (cases b)
  obtain es dn where st: "st = (es, dn)" by (cases st)
  from Cons.hyps a b have eq: "outcome_of k = outcome_of k'" "f = f'" by simp_all
  show ?case
    by (simp add: a b st eq Cons.IH split: sum.splits)
qed

text \<open>
  C10. When a key of the histogram contains a space, only the part before the first
  space is read as the binary outcome, and whatever follows the first space has no
  effect on what the estimator returns.
\<close>

theorem suffix_after_space_ignored:
  assumes "CHR 0x20 \<notin> set pre"
  shows "outcome_of (pre @ CHR 0x20 # suf) = py_int2 pre \<and>
     pauli_expval_with_variance (before @ (pre @ CHR 0x20 # suf, f) # after) paulis =
     pauli_expval_with_variance (before @ (pre, f) # after) paulis"
proof -
  from assms have tw: "takeWhile (\<lambda>c. c \<noteq> CHR 0x20) (pre @ CHR 0x20 # suf) = pre"
    by (induction pre) auto
  from assms have tw': "takeWhile (\<lambda>c. c \<noteq> CHR 0x20) pre = pre"
    by (induction pre) auto
  have o: "outcome_of (pre @ CHR 0x20 # suf) = py_int2 pre"
    by (simp only: outcome_of_prefix tw)
  have o': "outcome_of pre = py_int2 pre"
    by (simp only: outcome_of_prefix tw')
  have "list_all2 (\<lambda>a b. outcome_of (fst a) = outcome_of (fst b) \<and> snd a = snd b)
      (before @ (pre @ CHR 0x20 # suf, f) # after) (before @ (pre, f) # after)"
    by (simp add: list_all2_appendI list_all2_refl o o')
  then show ?thesis
    using o by (simp add: pauli_expval_with_variance_def Let_def count_loop_cong [of _ "before @ (pre, f) # after"])
qed

theorem suffix_after_space_ignored_witness:
  "outcome_of ''1 101'' = Inr 1 \<and>
   pauli_expval_with_variance [(''0'', 3), (''1 101'', 5)] [\<lparr>z = [True], x = [False], phase = 0\<rparr>] =
   pauli_expval_with_variance [(''0'', 3), (''1'', 5)] [\<lparr>z = [True], x = [False], phase = 0\<rparr>]"
proof -
  have "CHR 0x20 \<notin> set ''1''" by simp
  from suffix_after_space_ignored [OF this, of "''101''" "[(''0'', 3)]" 5 "[]" "[\<lparr>z = [True], x = [False], phase = 0\<rparr>]"]
  show ?thesis by (simp add: parse_defs)
qed

section \<open>Claims about the measurement circuits\<close>







lemma check_cregs_iff:
  "check_cregs clbits rs = (if fst clbits \<in> fst ` set rs then Inl QiskitError else Inr ())"
  by (induction rs) auto

lemma combine_circuit_eq:
  assumes "cregs mc \<noteq> []" and "num_qubits mc \<le> num_qubits circ"
  shows "combine_circuit circ mc =
     (if fst (hd (cregs mc)) \<in> fst ` set (cregs circ) then Inl QiskitError
      else Inr (circ\<lparr>cregs := cregs circ @ [hd (cregs mc)],
                     ops := ops circ @ map (shift_clbits (num_clbits circ)) (ops mc),
                     metadata := metadata mc\<rparr>))"
  using assms
  by (cases "cregs mc")
     (simp_all add: combine_circuit_def check_cregs_iff ebind_def compose_def add_register_def)

lemma combine_all_eq:
  assumes "\<forall>mc\<in>set mcs. cregs mc \<noteq> [] \<and> num_qubits mc \<le> num_qubits circ"
  shows "emap (combine_circuit circ) mcs =
     (if \<exists>mc\<in>set mcs. fst (hd (cregs mc)) \<in> fst ` set (cregs circ) then Inl QiskitError
      else Inr (map (\<lambda>mc. circ\<lparr>cregs := cregs circ @ [hd (cregs mc)],
                     ops := ops circ @ map (shift_clbits (num_clbits circ)) (ops mc),
                     metadata := metadata mc\<rparr>) mcs))"
  using assms
proof (induction mcs)
  case Nil
  then show ?case by simp
next
  case (Cons mc mcs)
  then have a: "cregs mc \<noteq> []" "num_qubits mc \<le> num_qubits circ" by simp_all
  from Cons have ih: "emap (combine_circuit circ) mcs =
     (if \<exists>mc\<in>set mcs. fst (hd (cregs mc)) \<in> fst ` set (cregs circ) then Inl QiskitError
      else Inr (map (\<lambda>mc. circ\<lparr>cregs := cregs circ @ [hd (cregs mc)],
                     ops := ops circ @ map (shift_clbits (num_clbits circ)) (ops mc),
                     metadata := metadata mc\<rparr>) mcs))" by simp
  show ?case
    by (simp add: combine_circuit_eq [OF a] ih)
qed

lemma measurement_circuit_register:
  assumes "measurement_circuit ps nq p = Inr (mc, inds)"
  shows "cregs mc = [(''__c_'' @ ps p, length inds)] \<and> num_qubits mc = nq"
proof -
  have loop: "measure_loop p cis c = Inr c' \<Longrightarrow> cregs c' = cregs c \<and> num_qubits c' = num_qubits c"
    for cis c c'
  proof (induction p cis c rule: measure_loop.induct)
    case (1 p mc)
    then show ?case by simp
  next
    case (2 p clbit i rest mc)
    then show ?case
      by (auto simp: ebind_def sdg_def h_def measure_def split: if_splits sum.splits)
  qed
  from assms show ?thesis
    by (auto simp: measurement_circuit_def Let_def ebind_def split: sum.splits dest!: loop)
qed

lemma emap_set: "emap f xs = Inr ys \<Longrightarrow> \<forall>y\<in>set ys. \<exists>a\<in>set xs. f a = Inr y"
  by (induction xs arbitrary: ys) (auto split: sum.splits)

lemma measure_group_register:
  assumes "measure_group ps circ pidx basis obs = Inr m"
  shows "(\<exists>n. cregs m = [(''__c_'' @ ps basis, n)]) \<and> num_qubits m = num_qubits circ"
proof -
  from assms obtain mc inds where
    mc: "measurement_circuit ps (num_qubits circ) basis = Inr (mc, inds)"
    and m: "cregs m = cregs mc" "num_qubits m = num_qubits mc"
    by (auto simp: measure_group_def ebind_def split: sum.splits)
  from measurement_circuit_register [OF mc] m show ?thesis by simp
qed

lemma build_registers:
  assumes "build_measurement_circuits q opts circ observable pidx = Inr ms"
  shows "\<forall>m\<in>set ms. (\<exists>basis n. cregs m = [(''__c_'' @ pauli_str q basis, n)]) \<and>
           num_qubits m = num_qubits circ"
proof (cases "abelian_grouping opts")
  case True
  with assms have "emap (\<lambda>obs. measure_group (pauli_str q) circ pidx
        \<lparr>z = logical_or_reduce (map z obs), x = logical_or_reduce (map x obs), phase = 0\<rparr> obs)
      (group_commuting q observable) = Inr ms"
    by (simp add: build_measurement_circuits_def Let_def)
  from emap_set [OF this] show ?thesis
    by (meson measure_group_register)
next
  case False
  with assms have "emap (\<lambda>basis. measure_group (pauli_str q) circ pidx basis [basis]) observable = Inr ms"
    by (simp add: build_measurement_circuits_def)
  from emap_set [OF this] show ?thesis
    by (meson measure_group_register)
qed

text \<open>
  C9. For the program variants of \<open>_create_measurement_circuits\<close> (the measurement
  circuits having been built, and the pass manager leaving their registers and qubits as
  they are): every measurement circuit has one register, named \<open>__c_\<close> followed by
  the string of its basis operator; when that name is the name of a classical register
  of the caller's program, the construction ends with the error QiskitError, and nothing
  is tried again; otherwise every measurement circuit is composed onto a copy of the
  caller's program, with its register added and its metadata attached.
\<close>

theorem register_name_conflict:
  assumes built: "build_measurement_circuits q opts circ observable pidx = Inr ms"
    and regs: "map cregs (passmanager_run q ms) = map cregs ms"
    and qubits: "map num_qubits (passmanager_run q ms) = map num_qubits ms"
  shows "(\<forall>m\<in>set ms. \<exists>basis n. cregs m = [(''__c_'' @ pauli_str q basis, n)]) \<and>
     create_measurement_circuits q opts circ observable pidx =
       (if \<exists>m\<in>set ms. fst (hd (cregs m)) \<in> fst ` set (cregs circ) then Inl QiskitError
        else Inr (map (\<lambda>m. circ\<lparr>cregs := cregs circ @ [hd (cregs m)],
                        ops := ops circ @ map (shift_clbits (num_clbits circ)) (ops m),
                        metadata := metadata m\<rparr>) (passmanager_run q ms)))"
proof -
  note b = build_registers [OF built]
  let ?ms' = "passmanager_run q ms"
  have sets: "cregs ` set ?ms' = cregs ` set ms" "num_qubits ` set ?ms' = num_qubits ` set ms"
    using arg_cong [OF regs, of set] arg_cong [OF qubits, of set] by simp_all
  have wf: "\<forall>mc\<in>set ?ms'. cregs mc \<noteq> [] \<and> num_qubits mc \<le> num_qubits circ"
  proof
    fix mc assume mc: "mc \<in> set ?ms'"
    then have "cregs mc \<in> cregs ` set ms" "num_qubits mc \<in> num_qubits ` set ms"
      using sets by blast+
    with b show "cregs mc \<noteq> [] \<and> num_qubits mc \<le> num_qubits circ" by force
  qed
  have ex: "(\<exists>mc\<in>set ?ms'. fst (hd (cregs mc)) \<in> fst ` set (cregs circ)) \<longleftrightarrow>
       (\<exists>m\<in>set ms. fst (hd (cregs m)) \<in> fst ` set (cregs circ))"
  proof -
    have "(\<exists>mc\<in>set ?ms'. fst (hd (cregs mc)) \<in> fst ` set (cregs circ)) \<longleftrightarrow>
        (\<exists>c\<in>cregs ` set ?ms'. fst (hd c) \<in> fst ` set (cregs circ))" by blast
    also have "\<dots> \<longleftrightarrow> (\<exists>c\<in>cregs ` set ms. fst (hd c) \<in> fst ` set (cregs circ))"
      by (simp only: sets)
    also have "\<dots> \<longleftrightarrow> (\<exists>m\<in>set ms. fst (hd (cregs m)) \<in> fst ` set (cregs circ))" by blast
    finally show ?thesis .
  qed
  have "create_measurement_circuits q opts circ observable pidx = emap (combine_circuit circ) ?ms'"
    by (simp add: create_measurement_circuits_def built ebind_def)
  then show ?thesis
    using b by (simp only: combine_all_eq [OF wf] ex) blast
qed

theorem register_name_conflict_witness:
  "create_measurement_circuits zq ex_options (example_circuit\<lparr>cregs := [(''__c_Z'', 1)]\<rparr>)
       [\<lparr>z = [True], x = [False], phase = 0\<rparr>] [] = Inl QiskitError \<and>
   create_measurement_circuits zq ex_options example_circuit
       [\<lparr>z = [True], x = [False], phase = 0\<rparr>] [] = Inr [ex_measured]"
proof -
  have b1: "build_measurement_circuits zq ex_options (example_circuit\<lparr>cregs := [(''__c_Z'', 1)]\<rparr>)
       [\<lparr>z = [True], x = [False], phase = 0\<rparr>] [] = Inr [ex_meas_circuit]"
    by code_simp
  have b2: "build_measurement_circuits zq ex_options example_circuit
       [\<lparr>z = [True], x = [False], phase = 0\<rparr>] [] = Inr [ex_meas_circuit]"
    by code_simp
  have pm: "map cregs (passmanager_run zq [ex_meas_circuit]) = map cregs [ex_meas_circuit]"
    "map num_qubits (passmanager_run zq [ex_meas_circuit]) = map num_qubits [ex_meas_circuit]"
    by (simp_all add: zq_def)
  from register_name_conflict [OF b1 pm] register_name_conflict [OF b2 pm]
  show ?thesis
    by (simp add: ex_meas_circuit_def example_circuit_def ex_measured_def zq_def num_clbits_def)
qed


section \<open>Claims about arrays, preprocessing and postprocessing\<close>

lemma concat_offsets:
  "concat (map (\<lambda>i. map (\<lambda>k. i * p + k) [0..<p]) [0..<n]) = [0..<n * p]"
proof (induction n)
  case 0
  then show ?case by simp
next
  case (Suc n)
  have "map (\<lambda>k. n * p + k) [0..<p] = [n * p..<n * p + p]"
    by (simp add: map_add_upt add.commute)
  moreover have "[0..<n * p] @ [n * p..<n * p + p] = [0..<n * p + p]"
    using upt_add_eq_append [of 0 "n * p" p] by simp
  ultimately show ?case
    using Suc by (simp add: add.commute)
qed

lemma ravel_ndindex: "map (ravel_index s) (ndindex s) = [0..<prod_list s]"
proof (induction s)
  case Nil
  then show ?case by simp
next
  case (Cons n ns)
  have "map (ravel_index (n # ns)) (ndindex (n # ns)) =
      concat (map (\<lambda>i. map (\<lambda>k. i * prod_list ns + k) (map (ravel_index ns) (ndindex ns))) [0..<n])"
    by (simp add: map_concat comp_def)
  also have "\<dots> = [0..<n * prod_list ns]"
    by (simp only: Cons.IH concat_offsets)
  finally show ?case by simp
qed

lemma length_ndindex: "length (ndindex s) = prod_list s"
  using arg_cong [OF ravel_ndindex [of s], of length] by simp

lemma distinct_ndindex: "distinct (ndindex s)"
proof -
  have "distinct (map (ravel_index s) (ndindex s))"
    by (simp add: ravel_ndindex)
  then show ?thesis by (simp add: distinct_map)
qed

lemma inj_ravel: "inj_on (ravel_index s) (set (ndindex s))"
proof -
  have "distinct (map (ravel_index s) (ndindex s))"
    by (simp add: ravel_ndindex)
  then show ?thesis by (simp add: distinct_map)
qed

lemma ravel_less: "idx \<in> set (ndindex s) \<Longrightarrow> ravel_index s idx < prod_list s"
proof -
  assume "idx \<in> set (ndindex s)"
  then have "ravel_index s idx \<in> set (map (ravel_index s) (ndindex s))" by simp
  then show ?thesis by (simp only: ravel_ndindex) simp
qed

lemma ravel_eq_iff:
  "i \<in> set (ndindex s) \<Longrightarrow> j \<in> set (ndindex s) \<Longrightarrow> ravel_index s i = ravel_index s j \<longleftrightarrow> i = j"
  using inj_ravel [of s] by (auto dest: inj_onD)

lemma cast_real_part:
  "astype_float (cadd (complex_of_float a) (cmul (complex_of_float e) (npcomplex_of c))) =
     fadd a (fmul e (Fin (Re c)))"
proof -
  have "fsub (fmul e (Fin (Re c))) (fmul (Fin 0) (Fin (Im c))) = fmul e (Fin (Re c))"
    by (cases "fmul e (Fin (Re c))") (simp_all add: fsub_def)
  then show ?thesis
    by (simp add: astype_float_def cadd_def cmul_def complex_of_float_def npcomplex_of_def)
qed

lemma getitem_setitem_same:
  "ravel_index (shape a) i < length (data a) \<Longrightarrow> getitem (setitem a i v) i = v"
  by (simp add: getitem_def setitem_def)

lemma setitem_setitem: "setitem (setitem a i v) i w = setitem a i w"
  by (simp add: setitem_def)

lemma setitem_getitem_same: "setitem a i (getitem a i) = a"
  by (simp add: setitem_def getitem_def)

lemma shape_setitem [simp]: "shape (setitem a i v) = shape a"
  by (simp add: setitem_def)

lemma length_data_setitem [simp]: "length (data (setitem a i v)) = length (data a)"
  by (simp add: setitem_def)

lemma accumulate_cell:
  assumes "accumulate em index pidx items (ea, va) = Inr (ea', va')"
    and "ravel_index (shape ea) index < length (data ea)"
    and "ravel_index (shape va) index < length (data va)"
  shows "ea' = setitem ea index (cell_evs em pidx items (getitem ea index)) \<and>
         va' = setitem va index (cell_err em pidx items (getitem va index))"
  using assms
proof (induction items arbitrary: ea va)
  case Nil
  then show ?case by (simp add: cell_evs_def cell_err_def setitem_getitem_same)
next
  case (Cons it items)
  obtain label coeff where it: "it = (label, coeff)" by (cases it)
  from Cons.prems(1) obtain expval variance where
    look: "em (pidx, label) = Some (expval, variance)"
    by (auto simp: it split: option.splits)
  let ?ea = "setitem ea index (fadd (getitem ea index) (fmul expval (Fin (Re coeff))))"
  let ?va = "setitem va index (fadd (getitem va index) (fmul (Fin (cmod coeff)) (fpow_half variance)))"
  from Cons.prems(1) have step: "accumulate em index pidx items (?ea, ?va) = Inr (ea', va')"
    by (simp add: it look cast_real_part)
  have r: "ravel_index (shape ?ea) index < length (data ?ea)"
    "ravel_index (shape ?va) index < length (data ?va)"
    using Cons.prems(2,3) by simp_all
  from Cons.IH [OF step r]
  show ?case
    using Cons.prems(2,3)
    by (simp add: getitem_setitem_same setitem_setitem cell_evs_def cell_err_def it
        expectation_at_def variance_at_def look)
qed

lemma getitem_setitem:
  assumes "i \<in> set (ndindex (shape a))" and "j \<in> set (ndindex (shape a))"
    and "length (data a) = prod_list (shape a)"
  shows "getitem (setitem a i v) j = (if j = i then v else getitem a j)"
  using assms ravel_less [OF assms(1)] ravel_eq_iff [OF assms(1,2)]
  by (auto simp: getitem_def setitem_def)

lemma postprocess_loop_cells:
  assumes "postprocess_loop em bcp bco idxs (ea, va) = Inr (ea', va')"
    and "distinct idxs" and "set idxs \<subseteq> set (ndindex (shape ea))"
    and "shape va = shape ea"
    and "length (data ea) = prod_list (shape ea)"
    and "length (data va) = prod_list (shape ea)"
  shows "shape ea' = shape ea \<and> shape va' = shape ea \<and>
     length (data ea') = prod_list (shape ea) \<and> length (data va') = prod_list (shape ea) \<and>
     (\<forall>j\<in>set (ndindex (shape ea)).
        getitem ea' j =
          (if j \<in> set idxs then cell_evs em (getitem bcp j) (getitem bco j) (getitem ea j)
           else getitem ea j) \<and>
        getitem va' j =
          (if j \<in> set idxs then cell_err em (getitem bcp j) (getitem bco j) (getitem va j)
           else getitem va j))"
  using assms
proof (induction idxs arbitrary: ea va)
  case Nil
  then show ?case by simp
next
  case (Cons i idxs)
  from Cons.prems(3) have i: "i \<in> set (ndindex (shape ea))" by simp
  from Cons.prems(1) obtain ea1 va1 where
    acc: "accumulate em i (getitem bcp i) (getitem bco i) (ea, va) = Inr (ea1, va1)"
    and rest: "postprocess_loop em bcp bco idxs (ea1, va1) = Inr (ea', va')"
    by (auto simp: ebind_def split: sum.splits)
  have ri: "ravel_index (shape ea) i < length (data ea)"
    "ravel_index (shape va) i < length (data va)"
    using ravel_less [OF i] Cons.prems(4,5,6) by simp_all
  from accumulate_cell [OF acc ri]
  have ea1: "ea1 = setitem ea i (cell_evs em (getitem bcp i) (getitem bco i) (getitem ea i))"
    and va1: "va1 = setitem va i (cell_err em (getitem bcp i) (getitem bco i) (getitem va i))"
    by simp_all
  have sh: "shape ea1 = shape ea" "shape va1 = shape ea"
    "length (data ea1) = prod_list (shape ea)" "length (data va1) = prod_list (shape ea)"
    using Cons.prems(4,5,6) by (simp_all add: ea1 va1)
  have ih: "shape ea' = shape ea1 \<and> shape va' = shape ea1 \<and>
     length (data ea') = prod_list (shape ea1) \<and> length (data va') = prod_list (shape ea1) \<and>
     (\<forall>j\<in>set (ndindex (shape ea1)).
        getitem ea' j =
          (if j \<in> set idxs then cell_evs em (getitem bcp j) (getitem bco j) (getitem ea1 j)
           else getitem ea1 j) \<and>
        getitem va' j =
          (if j \<in> set idxs then cell_err em (getitem bcp j) (getitem bco j) (getitem va1 j)
           else getitem va1 j))"
    using Cons.prems(2,3) sh by (intro Cons.IH [OF rest]) simp_all
  have g: "getitem ea1 j = (if j = i then cell_evs em (getitem bcp i) (getitem bco i) (getitem ea i) else getitem ea j)"
    "getitem va1 j = (if j = i then cell_err em (getitem bcp i) (getitem bco i) (getitem va i) else getitem va j)"
    if "j \<in> set (ndindex (shape ea))" for j
    using that i Cons.prems(4,5,6)
    by (simp_all add: ea1 va1 getitem_setitem)
  from Cons.prems(2) have ni: "i \<notin> set idxs" by simp
  show ?case
    using ih ni by (auto simp: sh g)
qed

lemma getitem_zeros_like:
  "j \<in> set (ndindex (shape a)) \<Longrightarrow> getitem (zeros_like a) j = Fin 0"
  using ravel_less [of j "shape a"] by (simp add: getitem_def zeros_like_def)

lemma postprocess_pub_cells:
  assumes "postprocess_pub pb em d shots = Inr r"
  defines "s \<equiv> shape (parameter_indices d)"
  shows "shape (evs (result_data r)) = s \<and> shape (stds (result_data r)) = s \<and>
     bin_shape (result_data r) = s \<and>
     length (data (evs (result_data r))) = prod_list s \<and>
     length (data (stds (result_data r))) = prod_list s \<and>
     md_shots r = shots \<and> target_precision r = precision pb \<and>
     (\<forall>j\<in>set (ndindex s).
        getitem (evs (result_data r)) j =
          cell_evs em (getitem (parameter_indices d) j) (getitem (bc_observables d) j) (Fin 0) \<and>
        getitem (stds (result_data r)) j =
          fdiv (cell_err em (getitem (parameter_indices d) j) (getitem (bc_observables d) j) (Fin 0))
            (np_sqrt_int shots))"
proof -
  let ?z = "zeros_like (parameter_indices d)"
  from assms(1) obtain ea va where
    loop: "postprocess_loop em (parameter_indices d) (bc_observables d) (ndindex s) (?z, ?z) = Inr (ea, va)"
    and r: "r = \<lparr>result_data = \<lparr>evs = ea,
                  stds = va\<lparr>data := map (\<lambda>v. fdiv v (np_sqrt_int shots)) (data va)\<rparr>,
                  bin_shape = shape ea\<rparr>,
               target_precision = precision pb, md_shots = shots,
               circuit_metadata = metadata (circuit pb)\<rparr>"
    by (auto simp: postprocess_pub_def Let_def ebind_def s_def split: sum.splits prod.splits)
  have zs: "shape ?z = s" "length (data ?z) = prod_list s"
    by (simp_all add: zeros_like_def s_def)
  have cells: "shape ea = s \<and> shape va = s \<and>
     length (data ea) = prod_list s \<and> length (data va) = prod_list s \<and>
     (\<forall>j\<in>set (ndindex s).
        getitem ea j =
          (if j \<in> set (ndindex s)
           then cell_evs em (getitem (parameter_indices d) j) (getitem (bc_observables d) j) (getitem ?z j)
           else getitem ?z j) \<and>
        getitem va j =
          (if j \<in> set (ndindex s)
           then cell_err em (getitem (parameter_indices d) j) (getitem (bc_observables d) j) (getitem ?z j)
           else getitem ?z j))"
    using postprocess_loop_cells [OF loop] zs by (simp add: distinct_ndindex)
  have std: "getitem (va\<lparr>data := map (\<lambda>v. fdiv v (np_sqrt_int shots)) (data va)\<rparr>) j =
      fdiv (getitem va j) (np_sqrt_int shots)" if "j \<in> set (ndindex s)" for j
    using ravel_less [OF that] cells by (simp add: getitem_def)
  have z0: "getitem ?z j = Fin 0" if "j \<in> set (ndindex s)" for j
    using that by (simp add: getitem_zeros_like s_def)
  show ?thesis
    using cells by (simp add: r std z0)
qed

lemma fmul_commute: "fmul a b = fmul b a"
  by (cases a; cases b) (simp_all add: mult.commute)

lemma cell_evs_real:
  "cell_evs em pidx (map (\<lambda>(label, coeff). (label, complex_of_real coeff)) items) a =
     foldl (\<lambda>acc (label, coeff). fadd acc (fmul (Fin coeff) (expectation_at em pidx label))) a items"
  by (induction items arbitrary: a) (auto simp: cell_evs_def fmul_commute)

lemma cell_err_real:
  "cell_err em pidx (map (\<lambda>(label, coeff). (label, complex_of_real coeff)) items) a =
     foldl (\<lambda>acc (label, coeff).
         fadd acc (fmul (Fin \<bar>coeff\<bar>) (fpow_half (variance_at em pidx label)))) a items"
  by (induction items arbitrary: a) (auto simp: cell_err_def)

lemma foldl_finite_evs:
  assumes "\<forall>(label, coeff)\<in>set items. em (pidx, label) = Some (Fin (E label), Fin (V label)) \<and> 0 \<le> V label"
  shows "foldl (\<lambda>acc (label, coeff). fadd acc (fmul (Fin coeff) (expectation_at em pidx label))) (Fin a) items =
      Fin (a + (\<Sum>(label, coeff)\<leftarrow>items. coeff * E label))"
  using assms
  by (induction items arbitrary: a) (auto simp: expectation_at_def add.assoc)

lemma foldl_finite_err:
  assumes "\<forall>(label, coeff)\<in>set items. em (pidx, label) = Some (Fin (E label), Fin (V label)) \<and> 0 \<le> V label"
  shows "foldl (\<lambda>acc (label, coeff).
         fadd acc (fmul (Fin \<bar>coeff\<bar>) (fpow_half (variance_at em pidx label)))) (Fin a) items =
      Fin (a + (\<Sum>(label, coeff)\<leftarrow>items. \<bar>coeff\<bar> * sqrt (V label)))"
  using assms
  by (induction items arbitrary: a) (auto simp: variance_at_def add.assoc)

text \<open>
  Both loops for an observable with real coefficients, as the specification words them:
  the value of \<open>evs\<close> at an index is the sum of \<open>coeff * expectation\<close> and the
  standard error is the sum of \<open>|coeff| * sqrt(variance)\<close> over \<open>sqrt(shots)\<close>, in the
  arithmetic of float64 with its special values, and as sums of real numbers for finite
  table entries with variances that are not negative.
\<close>

lemma accumulates_real_coefficients:
  assumes ok: "postprocess_pub pb em d shots = Inr r"
    and idx: "index \<in> set (ndindex (shape (parameter_indices d)))"
    and items: "getitem (bc_observables d) index =
                  map (\<lambda>(label, coeff). (label, complex_of_real coeff)) items"
  defines "pidx \<equiv> getitem (parameter_indices d) index"
  shows "getitem (evs (result_data r)) index = spec_evs em pidx items \<and>
     getitem (stds (result_data r)) index = fdiv (spec_err_accum em pidx items) (np_sqrt_int shots) \<and>
     ((\<forall>(label, coeff)\<in>set items.
          em (pidx, label) = Some (Fin (E label), Fin (V label)) \<and> 0 \<le> V label) \<and> 0 < shots \<longrightarrow>
      getitem (evs (result_data r)) index = Fin (\<Sum>(label, coeff)\<leftarrow>items. coeff * E label) \<and>
      getitem (stds (result_data r)) index =
        Fin ((\<Sum>(label, coeff)\<leftarrow>items. \<bar>coeff\<bar> * sqrt (V label)) / sqrt (real_of_int shots)))"
proof -
  from postprocess_pub_cells [OF ok] idx
  have e: "getitem (evs (result_data r)) index = spec_evs em pidx items"
    and s: "getitem (stds (result_data r)) index =
        fdiv (spec_err_accum em pidx items) (np_sqrt_int shots)"
    by (simp_all add: items cell_evs_real cell_err_real spec_evs_def spec_err_accum_def pidx_def)
  have fin: "spec_evs em pidx items = Fin (\<Sum>(label, coeff)\<leftarrow>items. coeff * E label) \<and>
      fdiv (spec_err_accum em pidx items) (np_sqrt_int shots) =
        Fin ((\<Sum>(label, coeff)\<leftarrow>items. \<bar>coeff\<bar> * sqrt (V label)) / sqrt (real_of_int shots))"
    if h: "\<forall>(label, coeff)\<in>set items.
          em (pidx, label) = Some (Fin (E label), Fin (V label)) \<and> 0 \<le> V label"
      and sh: "0 < shots"
    using foldl_finite_evs [OF h, of 0] foldl_finite_err [OF h, of 0] sh
    by (simp add: spec_evs_def spec_err_accum_def np_sqrt_int_def)
  show ?thesis
    using e s fin by simp
qed

text \<open>
  For complex coefficients and finite expectations in the table, the value that the
  loops leave at an index is the real part of the sum of \<open>coeff * expectation\<close>.
\<close>

lemma evs_keeps_real_part:
  assumes ok: "postprocess_pub pb em d shots = Inr r"
    and idx: "index \<in> set (ndindex (shape (parameter_indices d)))"
    and fin: "\<forall>(label, coeff)\<in>set (getitem (bc_observables d) index).
        \<exists>v. em (getitem (parameter_indices d) index, label) = Some (Fin (E label), v)"
  shows "getitem (evs (result_data r)) index =
     Fin (Re (\<Sum>(label, coeff)\<leftarrow>getitem (bc_observables d) index. coeff * complex_of_real (E label)))"
proof -
  have "cell_evs em pidx items (Fin a) = Fin (a + Re (\<Sum>(label, coeff)\<leftarrow>items. coeff * complex_of_real (E label)))"
    if "\<forall>(label, coeff)\<in>set items. \<exists>v. em (pidx, label) = Some (Fin (E label), v)"
    for pidx items a
    using that
    by (induction items arbitrary: a)
       (auto simp: cell_evs_def expectation_at_def add.assoc mult.commute)
  from this [OF fin, of 0] postprocess_pub_cells [OF ok] idx
  show ?thesis by simp
qed

lemmas postprocess_defs = postprocess_pub_def zeros_like_def getitem_def setitem_def ebind_def
  astype_float_def cadd_def cmul_def complex_of_float_def npcomplex_of_def fsub_def
  np_sqrt_int_def

text \<open>
  C7. For every pub that preprocessing and postprocessing accept, the arrays of
  expectation values and of standard errors have the broadcast shape of the bindings and
  the observables, and as many elements as that shape has; for bindings of shape (3,) and
  observables of shape (1,) the shape is (3,).
\<close>

theorem output_has_broadcast_shape:
  assumes pre: "preprocess_pub q opts bind_circuit pb = Inr d"
    and post: "postprocess_pub pb em d shots = Inr r"
  shows "(\<exists>s. broadcast_shapes (shape (parameter_values pb)) (shape (observables pb)) = Inr s \<and>
        shape (evs (result_data r)) = s \<and> shape (stds (result_data r)) = s \<and>
        bin_shape (result_data r) = s \<and>
        length (data (evs (result_data r))) = prod_list s \<and>
        length (data (stds (result_data r))) = prod_list s) \<and>
     (shape (parameter_values pb) = [3] \<and> shape (observables pb) = [1] \<longrightarrow>
        shape (evs (result_data r)) = [3] \<and> shape (stds (result_data r)) = [3])"
proof -
  from pre obtain s where
    s: "broadcast_shapes (shape (parameter_values pb)) (shape (observables pb)) = Inr s"
    and d: "shape (parameter_indices d) = s"
    by (auto simp: preprocess_pub_def Let_def ebind_def broadcast_arrays_def broadcast_to_def
        split: sum.splits)
  have ex: "broadcast_shapes [3] [1] = Inr [3]"
    by (simp add: broadcast_shapes_def ebind_def)
  from postprocess_pub_cells [OF post] d s ex show ?thesis
    by auto
qed

lemma pre_ex: "\<not> isl (preprocess_pub zq \<lparr>default_precision = 1 / 64, abelian_grouping = True, seed_simulator = None\<rparr> (\<lambda>pv c i. Inr c) ex_pub)"
  by code_simp

lemma accumulate_total:
  "\<forall>k. em k \<noteq> None \<Longrightarrow> \<exists>st'. accumulate em index pidx items st = Inr st'"
proof (induction items arbitrary: st)
  case Nil
  then show ?case by simp
next
  case (Cons it items)
  obtain label coeff where it: "it = (label, coeff)" by (cases it)
  obtain ea va where st: "st = (ea, va)" by (cases st)
  from Cons.prems obtain e v where "em (pidx, label) = Some (e, v)"
    by (metis not_Some_eq surj_pair)
  then show ?case
    using Cons.IH [OF Cons.prems] by (simp add: it st)
qed

lemma postprocess_loop_total:
  "\<forall>k. em k \<noteq> None \<Longrightarrow> \<exists>st'. postprocess_loop em bcp bco idxs st = Inr st'"
proof (induction idxs arbitrary: st)
  case Nil
  then show ?case by simp
next
  case (Cons i idxs)
  from accumulate_total [OF Cons.prems]
  obtain st1 where "accumulate em i (getitem bcp i) (getitem bco i) st = Inr st1" by blast
  then show ?case
    using Cons.IH [OF Cons.prems, of st1] by (simp add: ebind_def)
qed

lemma postprocess_pub_total:
  assumes "\<forall>k. em k \<noteq> None"
  shows "\<exists>r. postprocess_pub pb em d shots = Inr r"
proof -
  obtain ea va where "postprocess_loop em (parameter_indices d) (bc_observables d)
      (ndindex (shape (parameter_indices d)))
      (zeros_like (parameter_indices d), zeros_like (parameter_indices d)) = Inr (ea, va)"
    using postprocess_loop_total [OF assms] by (metis surj_pair)
  then show ?thesis
    by (simp add: postprocess_pub_def Let_def ebind_def)
qed

theorem output_has_broadcast_shape_witness:
  "\<exists>d r. preprocess_pub zq \<lparr>default_precision = 1 / 64, abelian_grouping = True, seed_simulator = None\<rparr>
            (\<lambda>pv c i. Inr c) ex_pub = Inr d \<and>
     postprocess_pub ex_pub (\<lambda>_. Some (Fin 1, Fin 0)) d 256 = Inr r \<and>
     shape (parameter_values ex_pub) = [3] \<and> shape (observables ex_pub) = [1] \<and>
     shape (evs (result_data r)) = [3] \<and> shape (stds (result_data r)) = [3]"
proof -
  obtain d where d: "preprocess_pub zq \<lparr>default_precision = 1 / 64, abelian_grouping = True, seed_simulator = None\<rparr>
            (\<lambda>pv c i. Inr c) ex_pub = Inr d"
    using pre_ex by (metis sum.collapse(2))
  obtain r where r: "postprocess_pub ex_pub (\<lambda>_. Some (Fin 1, Fin 0)) d 256 = Inr r"
    using postprocess_pub_total [of "\<lambda>_. Some (Fin 1, Fin 0)" ex_pub d 256] by auto
  have sh: "shape (parameter_values ex_pub) = [3]" "shape (observables ex_pub) = [1]"
    by (simp_all add: ex_pub_def)
  from output_has_broadcast_shape [OF d r] sh d r show ?thesis by blast
qed

text \<open>
  C2. The docstring of the class has complex coefficients \<open>a_i\<close> and the expectation
  value \<open>E(O) = sum a_i E(P_i)\<close>, and the claim has the imaginary part of
  \<open>coeff * expectation\<close> kept. The array \<open>evs\<close> is made with \<open>dtype=float\<close>, so the
  assignment of line 369 casts the complex sum to float64 and the imaginary part is lost.
  At the observable \<open>{"Z": 1j}\<close> with expectation 1 the product is \<open>1j\<close>, and the value
  returned is 0.
\<close>

theorem imaginary_part_dropped:
  "\<exists>r. postprocess_pub (scalar_pub [(''Z'', \<i>)])
          (\<lambda>k. if k = ([], ''Z'') then Some (Fin 1, Fin 0) else None)
          (scalar_data [(''Z'', \<i>)]) 4 = Inr r \<and>
     data (evs (result_data r)) = [Fin 0] \<and>
     \<i> * complex_of_real 1 = Complex 0 1"
  by (simp add: postprocess_defs scalar_pub_def scalar_data_def example_circuit_def
      complex_eq_iff)

text \<open>
  C6. The claim has \<open>evs[index] += coeff * expectation\<close> for every item, and the
  standard error the sum of \<open>|coeff| * sqrt(variance)\<close> over \<open>sqrt(shots)\<close>. At the
  observable \<open>{"Z": 3+4j, "X": 1j}\<close> with expectation 1/2 and variance 3/4 for both
  operators and 4 shots, the sum of \<open>coeff * expectation\<close> is \<open>1.5+2.5j\<close> and the value
  of \<open>evs\<close> is 1.5: the cast to float64 of line 369 again. The standard error is as
  claimed, with the moduli 5 and 1 of the coefficients.
\<close>

theorem complex_coefficients_accumulated:
  "\<exists>r. postprocess_pub (scalar_pub [(''Z'', Complex 3 4), (''X'', \<i>)])
          (\<lambda>k. if k = ([], ''Z'') \<or> k = ([], ''X'') then Some (Fin (1 / 2), Fin (3 / 4)) else None)
          (scalar_data [(''Z'', Complex 3 4), (''X'', \<i>)]) 4 = Inr r \<and>
     getitem (evs (result_data r)) [] = Fin (3 / 2) \<and>
     Complex 3 4 * complex_of_real (1 / 2) + \<i> * complex_of_real (1 / 2) = Complex (3 / 2) (5 / 2) \<and>
     getitem (stds (result_data r)) [] =
       Fin ((cmod (Complex 3 4) * sqrt (3 / 4) + cmod \<i> * sqrt (3 / 4)) / sqrt 4) \<and>
     cmod (Complex 3 4) = 5 \<and> cmod \<i> = 1"
proof -
  have c: "cmod (Complex 3 4) = 5"
  proof -
    have "cmod (Complex 3 4) = sqrt (5\<^sup>2)" by (simp add: cmod_def)
    then show ?thesis by (simp only: real_sqrt_abs)
  qed
  have e: "Complex 3 4 * complex_of_real (1 / 2) + \<i> * complex_of_real (1 / 2) = Complex (3 / 2) (5 / 2)"
    by (simp add: complex_eq_iff)
  show ?thesis
    using c e by (simp add: postprocess_defs scalar_pub_def scalar_data_def example_circuit_def)
qed


section \<open>Claims about validation, shots and execution\<close>


lemma validate_pubs_fails:
  "\<exists>ip\<in>set ips. precision (snd ip) \<le> 0 \<Longrightarrow> validate_pubs ips = Inl ValueError"
  by (induction ips rule: validate_pubs.induct) auto

lemma validate_pubs_passes:
  "\<forall>ip\<in>set ips. 0 < precision (snd ip) \<Longrightarrow> validate_pubs ips = Inr ()"
  by (induction ips rule: validate_pubs.induct) auto

text \<open>
  C5. For every list of pubs given to \<open>run\<close> (and coerced by Qiskit): when some pub
  has a precision that is zero or negative, \<open>run\<close> raises ValueError, and the log of
  backend calls is what it was: nothing of the submission is executed.
\<close>

theorem nonpositive_precision_rejected:
  assumes "emap (\<lambda>pb. coerce pb (case precision_arg of
                 None \<Rightarrow> default_precision (est_options self) | Some p \<Rightarrow> p)) pubs = Inr coerced"
    and "\<exists>pb\<in>set coerced. precision pb \<le> 0"
  shows "run self coerce pubs precision_arg calls = (Inl ValueError, calls)"
proof -
  from assms(2) obtain pb where pb: "pb \<in> set coerced" "precision pb \<le> 0" by blast
  then obtain i where "i < length coerced" "coerced ! i = pb"
    by (auto simp: in_set_conv_nth)
  then have "(i, pb) \<in> set (zip [0..<length coerced] coerced)"
    by (auto simp: set_zip intro!: exI [of _ i])
  with pb(2) have "validate_pubs (zip [0..<length coerced] coerced) = Inl ValueError"
    by (intro validate_pubs_fails) force
  with assms(1) show ?thesis
    by (simp add: run_def Let_def)
qed






lemma dict_members_Nil [simp]: "dict_members [] = {}"
  by (simp add: dict_members_def)



lemma dict_members_keys: "(k, i) \<in> dict_members d \<Longrightarrow> k \<in> fst ` set d"
  by (force simp: dict_members_def)




subsection \<open>The circuits of the backend calls\<close>









subsection \<open>Rounding to a float\<close>

lemma bisect_range: "lo < hi \<Longrightarrow> lo \<le> bisect n lo hi a \<and> bisect n lo hi a < hi"
proof (induction n arbitrary: lo hi)
  case 0
  then show ?case by simp
next
  case (Suc n)
  show ?case
  proof (cases "hi \<le> lo + 1")
    case True
    with Suc.prems show ?thesis by simp
  next
    case False
    let ?mid = "(lo + hi) div 2"
    from False have m: "lo < ?mid" "?mid < hi" by linarith+
    from Suc.IH [OF m(1)] Suc.IH [OF m(2)] m False show ?thesis
      by (auto simp: Let_def)
  qed
qed

lemma bisect_lower: "bisect n lo hi a = lo \<or> 2 powi (bisect n lo hi a) \<le> a"
proof (induction n arbitrary: lo hi)
  case 0
  then show ?case by simp
next
  case (Suc n)
  show ?case
  proof (cases "hi \<le> lo + 1")
    case True
    then show ?thesis by simp
  next
    case False
    let ?mid = "(lo + hi) div 2"
    show ?thesis
    proof (cases "2 powi ?mid \<le> a")
      case True
      with False have e: "bisect (Suc n) lo hi a = bisect n ?mid hi a" by (simp add: Let_def)
      from Suc.IH [of ?mid hi] True show ?thesis unfolding e by auto
    next
      case c: False
      with False have e: "bisect (Suc n) lo hi a = bisect n lo ?mid a" by (simp add: Let_def)
      from Suc.IH [of lo ?mid] show ?thesis unfolding e by auto
    qed
  qed
qed


lemma bisect_ge:
  "lo \<le> k \<Longrightarrow> k < hi \<Longrightarrow> hi - lo \<le> 2 ^ n \<Longrightarrow> 2 powi k \<le> a \<Longrightarrow> k \<le> bisect n lo hi a"
proof (induction n arbitrary: lo hi)
  case 0
  then show ?case by simp
next
  case (Suc n)
  show ?case
  proof (cases "hi \<le> lo + 1")
    case True
    with Suc.prems show ?thesis by simp
  next
    case False
    let ?mid = "(lo + hi) div 2"
    from False have m: "lo < ?mid" "?mid < hi" by linarith+
    from Suc.prems(3) have w: "hi - ?mid \<le> 2 ^ n" "?mid - lo \<le> 2 ^ n" by simp_all
    show ?thesis
    proof (cases "2 powi ?mid \<le> a")
      case True
      with False have e: "bisect (Suc n) lo hi a = bisect n ?mid hi a" by (simp add: Let_def)
      show ?thesis
      proof (cases "?mid \<le> k")
        case True
        from Suc.IH [OF True Suc.prems(2) w(1) Suc.prems(4)] show ?thesis unfolding e .
      next
        case False
        with bisect_range [OF m(2), of n a] show ?thesis unfolding e by linarith
      qed
    next
      case c: False
      with False have e: "bisect (Suc n) lo hi a = bisect n lo ?mid a" by (simp add: Let_def)
      have "k < ?mid"
      proof (rule ccontr)
        assume "\<not> k < ?mid"
        then have "2 powi ?mid \<le> (2 :: real) powi k"
          by (intro power_int_increasing) simp_all
        with Suc.prems(4) c show False by simp
      qed
      from Suc.IH [OF Suc.prems(1) this w(2) Suc.prems(4)] show ?thesis unfolding e .
    qed
  qed
qed

lemma float_exponent_range: "- 1075 \<le> float_exponent a \<and> float_exponent a \<le> 1024"
  using bisect_range [of "- 1075" 1025 12 a] by (simp add: float_exponent_def)


lemma float_exponent_ge:
  "- 1075 \<le> k \<Longrightarrow> k \<le> 1024 \<Longrightarrow> 2 powi k \<le> a \<Longrightarrow> k \<le> float_exponent a"
  unfolding float_exponent_def by (intro bisect_ge) simp_all

lemma float_exponent_eq:
  assumes "2 powi k \<le> a" and "a < 2 powi (k + 1)" and "- 1075 \<le> k" and "k \<le> 1024"
  shows "float_exponent a = k"
proof -
  have "k \<le> float_exponent a" using assms by (intro float_exponent_ge)
  moreover have "float_exponent a \<le> k"
  proof (rule ccontr)
    assume "\<not> float_exponent a \<le> k"
    then have k: "k + 1 \<le> float_exponent a" by simp
    then have "float_exponent a \<noteq> - 1075" using assms(3) by simp
    with bisect_lower [of 12 "- 1075" 1025 a] have "2 powi (float_exponent a) \<le> a"
      by (auto simp: float_exponent_def)
    moreover from k have "(2 :: real) powi (k + 1) \<le> 2 powi (float_exponent a)"
      by (intro power_int_increasing) simp_all
    ultimately show False using assms(2) by simp
  qed
  ultimately show ?thesis by simp
qed

lemma round_half_even_bounds:
  "\<bar>of_int (round_half_even m) - m\<bar> \<le> 1 / 2"
  unfolding round_half_even_def Let_def by (auto simp: abs_if) linarith+

lemma round_half_even_int [simp]: "round_half_even (of_int n) = n"
  by (simp add: round_half_even_def)

lemma round_half_even_small: "0 \<le> m \<Longrightarrow> m < 1 / 2 \<Longrightarrow> round_half_even m = 0"
proof -
  assume a: "0 \<le> m" "m < 1 / 2"
  then have "\<lfloor>m\<rfloor> = 0"
    by (simp add: floor_eq_iff)
  with a show ?thesis
    by (simp add: round_half_even_def)
qed

lemma f64_round_underflow:
  assumes "\<bar>v\<bar> < 2 powi (- 1075)"
  shows "f64_round v = Fin 0"
proof -
  define u :: real where "u = 2 powi (- 1022 - 52)"
  have u: "0 < u" "2 powi (- 1075) = u / 2"
    by (simp_all add: u_def)
  have "float_exponent \<bar>v\<bar> = - 1075"
  proof (rule ccontr)
    assume n: "float_exponent \<bar>v\<bar> \<noteq> - 1075"
    with bisect_lower [of 12 "- 1075" 1025 "\<bar>v\<bar>"] have "2 powi (float_exponent \<bar>v\<bar>) \<le> \<bar>v\<bar>"
      by (auto simp: float_exponent_def)
    moreover have "(2 :: real) powi (- 1075) \<le> 2 powi (float_exponent \<bar>v\<bar>)"
      using float_exponent_range [of "\<bar>v\<bar>"] by (intro power_int_increasing) simp_all
    ultimately show False using assms by linarith
  qed
  then have e: "max (float_exponent \<bar>v\<bar>) (- 1022) = - 1022" by simp
  from assms have "\<bar>v\<bar> < u / 2" unfolding u(2) .
  with u(1) have "\<bar>v\<bar> / u < 1 / 2" by (simp add: field_simps)
  moreover have "0 \<le> \<bar>v\<bar> / u" using u(1) by simp
  ultimately have r: "round_half_even (\<bar>v\<bar> / u) = 0"
    by (intro round_half_even_small)
  have "f64_round v = (if 2 powi 1024 \<le> of_int (round_half_even (\<bar>v\<bar> / u)) * u
      then (if v < 0 then NInf else PInf)
      else Fin (if v < 0 then - (of_int (round_half_even (\<bar>v\<bar> / u)) * u)
                else of_int (round_half_even (\<bar>v\<bar> / u)) * u))"
    unfolding f64_round_def Let_def e u_def ..
  then show ?thesis
    unfolding r by simp
qed

lemma f64_round_overflow:
  assumes "2 powi 1024 \<le> \<bar>v\<bar>"
  shows "f64_round v = (if v < 0 then NInf else PInf)"
proof -
  define u :: real where "u = 2 powi (1024 - 52)"
  define t :: real where "t = 2 powi 1024"
  have u: "0 < u" "t = 2 ^ 52 * u"
    by (simp_all add: u_def t_def)
  have e: "max (float_exponent \<bar>v\<bar>) (- 1022) = 1024"
    using float_exponent_ge [of 1024 "\<bar>v\<bar>"] float_exponent_range [of "\<bar>v\<bar>"] assms by simp
  from assms have "2 ^ 52 * u \<le> \<bar>v\<bar>" unfolding t_def [symmetric] u(2) .
  with u(1) have "2 ^ 52 \<le> \<bar>v\<bar> / u"
    by (simp add: field_simps)
  moreover have "\<bar>v\<bar> / u - 1 / 2 \<le> of_int (round_half_even (\<bar>v\<bar> / u))"
    using round_half_even_bounds [of "\<bar>v\<bar> / u"] by linarith
  ultimately have "2 ^ 52 - 1 / 2 \<le> (of_int (round_half_even (\<bar>v\<bar> / u)) :: real)"
    by linarith
  then have "\<lceil>(2 :: real) ^ 52 - 1 / 2\<rceil> \<le> round_half_even (\<bar>v\<bar> / u)"
    by (simp only: ceiling_le_iff)
  moreover have "\<lceil>(2 :: real) ^ 52 - 1 / 2\<rceil> = 2 ^ 52"
    by (simp add: ceiling_eq_iff)
  ultimately have "(2 :: int) ^ 52 \<le> round_half_even (\<bar>v\<bar> / u)"
    by simp
  then have "(2 :: real) ^ 52 \<le> of_int (round_half_even (\<bar>v\<bar> / u))"
    by (metis of_int_le_iff of_int_numeral of_int_power)
  then have "2 ^ 52 * u \<le> of_int (round_half_even (\<bar>v\<bar> / u)) * u"
    using u(1) by (intro mult_right_mono) simp_all
  then have r: "t \<le> of_int (round_half_even (\<bar>v\<bar> / u)) * u"
    unfolding u(2) .
  have "f64_round v = (if t \<le> of_int (round_half_even (\<bar>v\<bar> / u)) * u
      then (if v < 0 then NInf else PInf)
      else Fin (if v < 0 then - (of_int (round_half_even (\<bar>v\<bar> / u)) * u)
                else of_int (round_half_even (\<bar>v\<bar> / u)) * u))"
    unfolding f64_round_def Let_def e u_def t_def ..
  then show ?thesis
    using r by simp
qed




lemma f64_round_eval:
  assumes "2 powi k \<le> \<bar>v\<bar>" and "\<bar>v\<bar> < 2 powi (k + 1)" and "- 1075 \<le> k" and "k \<le> 1024"
  shows "f64_round v =
     (let ulp = 2 powi (max k (- 1022) - 52);
          m = of_int (round_half_even (\<bar>v\<bar> / ulp)) * ulp
      in if 2 powi 1024 \<le> m then (if v < 0 then NInf else PInf)
         else Fin (if v < 0 then - m else m))"
  unfolding f64_round_def Let_def float_exponent_eq [OF assms] ..






lemma shots_16th: "shots_of_precision (1 / 16) = Inr 256"
proof -
  have a: "f64_round (1 / 16 * (1 / 16)) = Fin (1 / 256)"
    by (subst f64_round_eval [of "- 8"]) (simp_all add: round_half_even_def)
  have b: "f64_round (1 / (1 / 256)) = Fin 256"
    by (subst f64_round_eval [of 8]) (simp_all add: round_half_even_def)
  show ?thesis
    unfolding shots_of_precision_def a npfloat.case b by simp
qed

lemma shots_underflow: "shots_of_precision (2 powi (- 600)) = Inl ZeroDivisionError"
proof -
  have "(2 :: real) powi (- 600) * 2 powi (- 600) = 2 powi (- 1200)"
    by (simp add: power_int_add [symmetric])
  moreover have "(2 :: real) powi (- 1200) < 2 powi (- 1075)"
    by (intro power_int_strict_increasing) simp_all
  ultimately have "f64_round (2 powi (- 600) * 2 powi (- 600)) = Fin 0"
    by (intro f64_round_underflow) simp
  then show ?thesis by (simp add: shots_of_precision_def)
qed

lemma shots_overflow: "shots_of_precision (2 powi 600) = Inl OverflowError"
proof -
  have "(2 :: real) powi 600 * 2 powi 600 = 2 powi 1200"
    by (simp add: power_int_add [symmetric])
  moreover have "(2 :: real) powi 1024 \<le> 2 powi 1200"
    by (intro power_int_increasing) simp_all
  ultimately have "f64_round (2 powi 600 * 2 powi 600) = PInf"
    using f64_round_overflow [of "2 powi 600 * 2 powi 600"] by simp
  then show ?thesis by (simp add: shots_of_precision_def)
qed

subsection \<open>The run of an example\<close>

lemma ex_preprocess:
  "preprocess_pub zq ex_options (\<lambda>pv c i. Inr c) (scalar_pub [(''Z'', 1)]) =
     Inr ((scalar_data [(''Z'', 1)])\<lparr>circuits := [ex_measured]\<rparr>)"
  by code_simp

lemma ex_consolidate:
  "consolidate (zip [0..<length [scalar_pub [(''Z'', 1)]]] [scalar_pub [(''Z'', 1)]]) [] = Inr [(256, [0])]"
  by (simp add: scalar_pub_def shots_16th ebind_def)

lemma ex_run_circuits:
  "run_circuits ex_backend [ex_measured] 256 None calls =
     (Inr ([Many [[(''0'', 256)]]], [Some ex_meta]), calls @ [([ex_measured\<lparr>metadata := None\<rparr>], 256)])"
  by (simp add: run_circuits_def ex_backend_def ex_measured_def)

lemma ex_estimate:
  "pauli_expval_with_variance [(''0'', 256)] [\<lparr>z = [True], x = [False], phase = 0\<rparr>] =
     Inr ([Fin 1], [Fin 0])"
proof -
  have p: "list_all2 (\<lambda>kf b. outcome_of (fst kf) = Inr b) [(''0'', 256)] [0]"
    by (simp add: parse_defs)
  have q: "parity 0 = 0"
    by code_simp
  show ?thesis
    by (simp add: estimator_result [OF p] fsub_def term_of_def q)
qed

lemma ex_expval_map:
  "calc_expval_map zq [[(''0'', 256)]] [Some ex_meta] = Inr [([], ''Z'') \<mapsto> (Fin 1, Fin 0)]"
  by (simp add: calc_expval_map_def ex_meta_def ex_estimate ebind_def zq_def)

lemma ex_postprocess:
  "postprocess_pub (scalar_pub [(''Z'', 1)]) [([], ''Z'') \<mapsto> (Fin 1, Fin 0)]
     ((scalar_data [(''Z'', 1)])\<lparr>circuits := [ex_measured]\<rparr>) 256 =
   Inr \<lparr>result_data = \<lparr>evs = \<lparr>shape = [], data = [Fin 1]\<rparr>,
                         stds = \<lparr>shape = [], data = [Fin 0]\<rparr>, bin_shape = []\<rparr>,
        target_precision = 1 / 16, md_shots = 256, circuit_metadata = None\<rparr>"
  by (simp add: postprocess_defs scalar_pub_def scalar_data_def example_circuit_def)

lemma ex_run_pubs:
  "run_pubs ex_estimator [scalar_pub [(''Z'', 1)]] 256 calls =
    (Inr [\<lparr>result_data = \<lparr>evs = \<lparr>shape = [], data = [Fin 1]\<rparr>,
                         stds = \<lparr>shape = [], data = [Fin 0]\<rparr>, bin_shape = []\<rparr>,
        target_precision = 1 / 16, md_shots = 256, circuit_metadata = None\<rparr>],
     calls @ [([ex_measured\<lparr>metadata := None\<rparr>], 256)])"
proof -
  have seed: "seed_simulator ex_options = None"
    by (simp add: ex_options_def)
  show ?thesis
    by (simp add: run_pubs_def ex_estimator_def ex_preprocess ex_run_circuits seed
        prepare_counts_def slice_def ex_expval_map ex_postprocess ebind_def)
qed

lemma ex_run_private:
  "run_private ex_estimator [scalar_pub [(''Z'', 1)]] calls =
    (Inr \<lparr>pub_results = [Some \<lparr>result_data = \<lparr>evs = \<lparr>shape = [], data = [Fin 1]\<rparr>,
                         stds = \<lparr>shape = [], data = [Fin 0]\<rparr>, bin_shape = []\<rparr>,
        target_precision = 1 / 16, md_shots = 256, circuit_metadata = None\<rparr>], version = 2\<rparr>,
     calls @ [([ex_measured\<lparr>metadata := None\<rparr>], 256)])"
  using ex_consolidate by (simp add: run_private_def ex_run_pubs)

subsection \<open>The run of the pub with precision \<open>float_third\<close>\<close>













theorem nonpositive_precision_rejected_witness:
  "run ex_estimator (\<lambda>pb prec. Inr (pb\<lparr>precision := prec\<rparr>))
       [scalar_pub [(''Z'', 1)], scalar_pub [(''Z'', 1)]] (Some 0) [] = (Inl ValueError, []) \<and>
   (\<exists>job calls'. run ex_estimator (\<lambda>pb prec. Inr pb)
       [scalar_pub [(''Z'', 1)]] None [] = (Inr job, calls') \<and> map snd calls' = [256])"
proof -
  have "run ex_estimator (\<lambda>pb prec. Inr (pb\<lparr>precision := prec\<rparr>))
       [scalar_pub [(''Z'', 1)], scalar_pub [(''Z'', 1)]] (Some 0) [] = (Inl ValueError, [])"
    by (rule nonpositive_precision_rejected
        [of _ _ _ _ "[(scalar_pub [(''Z'', 1)])\<lparr>precision := 0\<rparr>, (scalar_pub [(''Z'', 1)])\<lparr>precision := 0\<rparr>]"])
      simp_all
  moreover have "\<exists>job calls'. run ex_estimator (\<lambda>pb prec. Inr pb)
       [scalar_pub [(''Z'', 1)]] None [] = (Inr job, calls') \<and> map snd calls' = [256]"
    by (simp add: run_def ex_run_private) (simp add: scalar_pub_def)
  ultimately show ?thesis by blast
qed


end
